theory Spec2Isabelle
  imports Complex_Main "HOL-Library.AList" "HOL-Library.Multiset"
begin

section \<open>Python strings\<close>

text \<open>
  A Python \<open>str\<close> is a sequence of Unicode code points.  A code point is modelled as a
  natural number and a string as a list of them; \<open>ascii\<close> embeds an ASCII literal.
\<close>

type_synonym pychar = nat
type_synonym pystr = "nat list"

definition ascii :: "string \<Rightarrow> pystr" where
  "ascii s = map of_char s"

text \<open>
  The characters matched by \<open>\s\<close> in a \<open>str\<close> pattern, which are also the ones removed by
  \<open>str.strip()\<close>: the code points for which Python's \<open>str.isspace\<close> holds.
\<close>

definition is_space :: "pychar \<Rightarrow> bool" where
  "is_space c \<longleftrightarrow>
     (9 \<le> c \<and> c \<le> 13) \<or> (28 \<le> c \<and> c \<le> 32) \<or> c = 133 \<or> c = 160 \<or> c = 5760 \<or>
     (8192 \<le> c \<and> c \<le> 8202) \<or> c = 8232 \<or> c = 8233 \<or> c = 8239 \<or> c = 8287 \<or> c = 12288"

text \<open>\<open>s.strip()\<close> and \<open>s.split(sep)\<close> for a one-character separator.\<close>

definition strip :: "pystr \<Rightarrow> pystr" where
  "strip s = rev (dropWhile is_space (rev (dropWhile is_space s)))"

fun split :: "pychar \<Rightarrow> pystr \<Rightarrow> pystr list" where
  "split sep [] = [[]]"
| "split sep (c # cs) =
     (let rest = split sep cs
      in if c = sep then [] # rest else (c # hd rest) # tl rest)"

section \<open>Regular expressions\<close>

text \<open>
  The fragment of Python's \<open>re\<close> syntax that \<open>URL_REGEX\<close> uses.  Matching is by
  derivatives: \<open>deriv c r\<close> matches what \<open>r\<close> matches after a leading \<open>c\<close>.
\<close>

datatype regex =
    Null
  | Eps
  | Lit pychar
  | Class "pychar \<Rightarrow> bool"
  | Cat regex regex
  | Alt regex regex
  | Star regex

fun nullable :: "regex \<Rightarrow> bool" where
  "nullable Null = False"
| "nullable Eps = True"
| "nullable (Lit c) = False"
| "nullable (Class P) = False"
| "nullable (Cat r s) = (nullable r \<and> nullable s)"
| "nullable (Alt r s) = (nullable r \<or> nullable s)"
| "nullable (Star r) = True"

fun deriv :: "pychar \<Rightarrow> regex \<Rightarrow> regex" where
  "deriv c Null = Null"
| "deriv c Eps = Null"
| "deriv c (Lit d) = (if c = d then Eps else Null)"
| "deriv c (Class P) = (if P c then Eps else Null)"
| "deriv c (Cat r s) =
     (if nullable r then Alt (Cat (deriv c r) s) (deriv c s) else Cat (deriv c r) s)"
| "deriv c (Alt r s) = Alt (deriv c r) (deriv c s)"
| "deriv c (Star r) = Cat (deriv c r) (Star r)"

text \<open>\<open>fullmatch r s\<close>: the whole of \<open>s\<close> is matched by \<open>r\<close>.\<close>

fun fullmatch :: "regex \<Rightarrow> pystr \<Rightarrow> bool" where
  "fullmatch r [] = nullable r"
| "fullmatch r (c # cs) = fullmatch (deriv c r) cs"

text \<open>The derived forms \<open>r+\<close>, \<open>r?\<close> and a literal string.\<close>

definition plus_rx :: "regex \<Rightarrow> regex" where
  "plus_rx r = Cat r (Star r)"

definition opt_rx :: "regex \<Rightarrow> regex" where
  "opt_rx r = Alt r Eps"

fun lits :: "pystr \<Rightarrow> regex" where
  "lits [] = Eps"
| "lits (c # cs) = Cat (Lit c) (lits cs)"

text \<open>
  \<open>pattern.match(s)\<close> for a pattern of the shape \<open>^r$\<close> without flags: the match starts at
  the beginning of \<open>s\<close>, and \<open>$\<close> holds at the end of the string and also just before a
  newline that is the last character of the string.
\<close>

definition match_anchored :: "regex \<Rightarrow> pystr \<Rightarrow> bool" where
  "match_anchored r s \<longleftrightarrow>
     fullmatch r s \<or> (s \<noteq> [] \<and> last s = 10 \<and> fullmatch r (butlast s))"

section \<open>Validation of a target\<close>

text \<open>The character class \<open>[A-Za-z0-9.-]\<close>.\<close>

definition host_char :: "pychar \<Rightarrow> bool" where
  "host_char c \<longleftrightarrow>
     (65 \<le> c \<and> c \<le> 90) \<or> (97 \<le> c \<and> c \<le> 122) \<or> (48 \<le> c \<and> c \<le> 57) \<or> c = 46 \<or> c = 45"

text \<open>
  \<open>URL_REGEX = re.compile(r"^https://[A-Za-z0-9.-]+(?:/[^\s]*)?$")\<close>, without its two
  anchors, which \<open>match_anchored\<close> supplies.
\<close>

definition URL_REGEX :: regex where
  "URL_REGEX =
     Cat (lits (ascii ''https://''))
       (Cat (plus_rx (Class host_char))
         (opt_rx (Cat (Lit 47) (Star (Class (\<lambda>c. \<not> is_space c))))))"

definition validate_host :: "pystr \<Rightarrow> bool" where
  "validate_host url = match_anchored URL_REGEX url"

section \<open>Input arguments and the list of targets\<close>

text \<open>
  The namespace that \<open>argparse\<close> returns: \<open>-H\<close>, \<open>-C\<close> (an \<open>int\<close>, default 1), \<open>-F\<close>
  and \<open>-O\<close>.  An option that was not given is \<open>None\<close>.
\<close>

record args =
  args_hosts :: "pystr option"
  args_count :: int
  args_file :: "pystr option"
  args_output :: "pystr option"

text \<open>
  Truth value of an optional string in a condition: \<open>None\<close> and the empty string are
  false.  The result keeps the string when it is true.
\<close>

definition truthy :: "pystr option \<Rightarrow> pystr option" where
  "truthy x = (case x of None \<Rightarrow> None | Some s \<Rightarrow> if s = [] then None else Some s)"

text \<open>
  The five early returns of \<open>main\<close>, in the order of the source, and the line each one
  prints.  \<open>FileError path e\<close> carries the path and the text of the exception caught in
  \<open>load_hosts_from_file\<close>; \<open>BadUrl h\<close> carries the rejected target.
\<close>

datatype diagnostic =
    BothHostsAndFile
  | FileError pystr pystr
  | NoHosts
  | BadUrl pystr
  | BadCount

definition msg_both :: pystr where
  "msg_both =
     [1054, 1096, 1080, 1073, 1082, 1072, 58, 32, 1085, 1077, 1083, 1100, 1079, 1103, 32,
      1080, 1089, 1087, 1086, 1083, 1100, 1079, 1086, 1074, 1072, 1090, 1100, 32, 1086,
      1076, 1085, 1086, 1074, 1088, 1077, 1084, 1077, 1085, 1085, 1086, 32, 45, 72, 32,
      1080, 32, 45, 70, 46]"

definition msg_neither :: pystr where
  "msg_neither =
     [1054, 1096, 1080, 1073, 1082, 1072, 58, 32, 1085, 1077, 1086, 1073, 1093, 1086, 1076,
      1080, 1084, 1086, 32, 1091, 1082, 1072, 1079, 1072, 1090, 1100, 32, 45, 72, 32, 1080,
      1083, 1080, 32, 45, 70, 46]"

definition msg_url :: "pystr \<Rightarrow> pystr" where
  "msg_url h =
     [1054, 1096, 1080, 1073, 1082, 1072, 58, 32, 1085, 1077, 1082, 1086, 1088, 1088, 1077,
      1082, 1090, 1085, 1099, 1081, 32, 1092, 1086, 1088, 1084, 1072, 1090, 32, 85, 82, 76,
      32, 39] @ h @
     [39, 46, 32, 1054, 1078, 1080, 1076, 1072, 1077, 1090, 1089, 1103, 32] @
     ascii ''https://example.com''"

definition msg_count :: pystr where
  "msg_count =
     [1054, 1096, 1080, 1073, 1082, 1072, 58, 32, 1087, 1072, 1088, 1072, 1084, 1077, 1090,
      1088, 32, 99, 111, 117, 110, 116, 32, 1076, 1086, 1083, 1078, 1077, 1085, 32, 1073,
      1099, 1090, 1100, 32, 1087, 1086, 1083, 1086, 1078, 1080, 1090, 1077, 1083, 1100,
      1085, 1099, 1084, 32, 1095, 1080, 1089, 1083, 1086, 1084, 46]"

definition msg_read :: "pystr \<Rightarrow> pystr \<Rightarrow> pystr" where
  "msg_read path e =
     [1054, 1096, 1080, 1073, 1082, 1072, 32, 1095, 1090, 1077, 1085, 1080, 1103, 32, 1092,
      1072, 1081, 1083, 1072, 32, 39] @ path @ [39, 58, 32] @ e"

definition msg_write :: "pystr \<Rightarrow> pystr \<Rightarrow> pystr" where
  "msg_write path e =
     [1054, 1096, 1080, 1073, 1082, 1072, 32, 1079, 1072, 1087, 1080, 1089, 1080, 32, 1074,
      32, 1092, 1072, 1081, 1083, 32, 39] @ path @ [39, 58, 32] @ e"

fun message :: "diagnostic \<Rightarrow> pystr" where
  "message BothHostsAndFile = msg_both"
| "message (FileError path e) = msg_read path e"
| "message NoHosts = msg_neither"
| "message (BadUrl h) = msg_url h"
| "message BadCount = msg_count"

text \<open>
  The errors of the specification's taxonomy that are configuration errors: both input
  modes, none, an unreadable file, a count below one.  A rejected target is a validation
  error.
\<close>

fun is_configuration_error :: "diagnostic \<Rightarrow> bool" where
  "is_configuration_error (BadUrl h) = False"
| "is_configuration_error d = True"

text \<open>
  \<open>load_hosts_from_file\<close>.  The file system is a parameter: \<open>fs path\<close> is either the text of
  the exception that opening or reading the file raises, or the lines of the file as the
  iteration yields them.
\<close>

type_synonym filesystem = "pystr \<Rightarrow> pystr + pystr list"

definition load_hosts_from_file :: "filesystem \<Rightarrow> pystr \<Rightarrow> diagnostic + pystr list" where
  "load_hosts_from_file fs path =
     (case fs path of
        Inl e \<Rightarrow> Inl (FileError path e)
      | Inr lines \<Rightarrow> Inr (map strip (filter (\<lambda>line. strip line \<noteq> []) lines)))"

text \<open>Lines 80 to 96 of \<open>main\<close>: the two input modes.\<close>

definition get_hosts :: "filesystem \<Rightarrow> args \<Rightarrow> diagnostic + pystr list" where
  "get_hosts fs a =
     (case (truthy (args_hosts a), truthy (args_file a)) of
        (Some hs, Some path) \<Rightarrow> Inl BothHostsAndFile
      | (_, Some path) \<Rightarrow> load_hosts_from_file fs path
      | (Some hs, None) \<Rightarrow> Inr (split 44 hs)
      | (None, None) \<Rightarrow> Inl NoHosts)"

section \<open>One request\<close>

text \<open>
  What \<open>requests.get(url, timeout=5)\<close> does for one task: it returns a response with a
  status code, or it raises.  The exceptions that report a transport failure (connection
  refused and DNS failure: \<open>ConnectionError\<close>; timeout: \<open>Timeout\<close>; TLS failure:
  \<open>SSLError\<close>) are subclasses of \<open>RequestException\<close>.
\<close>

datatype transport_failure = ConnectionRefused | TimedOut | DNSFailure | TLSFailure

datatype raised = Transport transport_failure | OtherRequestException | OtherException

fun is_RequestException :: "raised \<Rightarrow> bool" where
  "is_RequestException (Transport f) = True"
| "is_RequestException OtherRequestException = True"
| "is_RequestException OtherException = False"

text \<open>
  \<open>Response status elapsed\<close>: the call returned, and the two readings of
  \<open>time.perf_counter\<close> around it differ by \<open>elapsed\<close>, a value of the type \<open>'t\<close> of floats.
\<close>

datatype 't get_result = Response int 't | Raises raised

text \<open>
  \<open>perform_request\<close> returns the pair \<open>(status_code, elapsed)\<close>, here \<open>Some (status,
  elapsed)\<close>, or the pair \<open>(None, None)\<close>, here \<open>None\<close>; an exception that is not a
  \<open>RequestException\<close> leaves the function.
\<close>

definition perform_request :: "'t get_result \<Rightarrow> raised + (int \<times> 't) option" where
  "perform_request g =
     (case g of
        Response status elapsed \<Rightarrow> Inr (Some (status, elapsed))
      | Raises e \<Rightarrow> if is_RequestException e then Inr None else Inl e)"

section \<open>Statistics\<close>

record 't host_stats =
  success :: int
  failed :: int
  errors :: int
  times_l :: "'t list"

text \<open>
  The dictionary \<open>stats\<close>, in insertion order.  \<open>AList.update\<close> is the assignment
  \<open>stats[host] = d\<close>: it replaces the value of a key that is present and appends a new key.
\<close>

type_synonym 't stats = "(pystr \<times> 't host_stats) list"

definition zero_stats :: "'t host_stats" where
  "zero_stats = \<lparr>success = 0, failed = 0, errors = 0, times_l = []\<rparr>"

definition init_stats :: "pystr list \<Rightarrow> 't stats" where
  "init_stats hosts = foldl (\<lambda>d host. AList.update host zero_stats d) [] hosts"

text \<open>Lines 129 to 139: what one result does to the record of its host.\<close>

definition record_result :: "'t host_stats \<Rightarrow> (int \<times> 't) option \<Rightarrow> 't host_stats" where
  "record_result d res =
     (case res of
        None \<Rightarrow> d\<lparr>errors := errors d + 1\<rparr>
      | Some (status, elapsed) \<Rightarrow>
          if 200 \<le> status \<and> status < 400
          then d\<lparr>success := success d + 1, times_l := times_l d @ [elapsed]\<rparr>
          else if 400 \<le> status \<and> status < 600
          then d\<lparr>failed := failed d + 1\<rparr>
          else d\<lparr>errors := errors d + 1\<rparr>)"

datatype error = KeyError pystr | Uncaught raised

text \<open>One iteration of the loop over \<open>as_completed(futures)\<close>, lines 126 to 139.\<close>

definition fold_result :: "'t stats \<Rightarrow> pystr \<Rightarrow> (int \<times> 't) option \<Rightarrow> error + 't stats" where
  "fold_result stats host res =
     (case map_of stats host of
        None \<Rightarrow> Inl (KeyError host)
      | Some d \<Rightarrow> Inr (AList.update host (record_result d res) stats))"

text \<open>
  The loop.  Each completed future comes with its host and with what \<open>future.result()\<close>
  does: it returns the value of \<open>perform_request\<close> or raises its exception again.
\<close>

type_synonym 't completion = "pystr \<times> (raised + (int \<times> 't) option)"

fun aggregate :: "'t stats \<Rightarrow> 't completion list \<Rightarrow> error + 't stats" where
  "aggregate stats [] = Inr stats"
| "aggregate stats ((host, r) # rest) =
     (case r of
        Inl e \<Rightarrow> Inl (Uncaught e)
      | Inr res \<Rightarrow>
          (case fold_result stats host res of
             Inl e \<Rightarrow> Inl e
           | Inr stats' \<Rightarrow> aggregate stats' rest))"

section \<open>Dispatch\<close>

text \<open>
  The comprehension of lines 118 to 122 submits one task for each host of the list and each
  of the \<open>count\<close> repetitions, in this order.
\<close>

definition tasks :: "pystr list \<Rightarrow> int \<Rightarrow> pystr list" where
  "tasks hosts n = concat (map (\<lambda>host. replicate (nat n) host) hosts)"

text \<open>
  The network and the scheduler are parameters: \<open>net i\<close> is what \<open>requests.get\<close> does in the
  task submitted as number \<open>i\<close>, and \<open>order\<close> lists the task numbers in the order in which
  \<open>as_completed\<close> yields them, a permutation of all task numbers.
\<close>

definition completions :: "pystr list \<Rightarrow> (nat \<Rightarrow> 't get_result) \<Rightarrow> nat list \<Rightarrow> 't completion list" where
  "completions ts net order = map (\<lambda>i. (ts ! i, perform_request (net i))) order"

definition is_schedule :: "nat list \<Rightarrow> nat \<Rightarrow> bool" where
  "is_schedule order n \<longleftrightarrow> mset order = mset [0..<n]"

section \<open>The report\<close>

text \<open>
  The operations on floats that \<open>print_stats\<close> uses are parameters: \<open>fsum\<close> is the builtin
  \<open>sum\<close> on a list of floats, \<open>fdiv x n\<close> the division of a float by the integer \<open>n\<close>, and
  \<open>fmt4\<close> the format \<open>:.4f\<close>.  The comparisons of floats are those of a linear order:
  the latencies are differences of clock readings, never NaN.
\<close>

record 't float_ops =
  fsum :: "'t list \<Rightarrow> 't"
  fdiv :: "'t \<Rightarrow> int \<Rightarrow> 't"
  fmt4 :: "'t \<Rightarrow> pystr"

text \<open>
  The builtins \<open>min\<close> and \<open>max\<close> on a list with first element \<open>x\<close>: a loop that keeps the
  current candidate unless the next element is strictly smaller (greater).
\<close>

definition py_min :: "'t::linorder \<Rightarrow> 't list \<Rightarrow> 't" where
  "py_min x xs = foldl (\<lambda>m y. if y < m then y else m) x xs"

definition py_max :: "'t::linorder \<Rightarrow> 't list \<Rightarrow> 't" where
  "py_max x xs = foldl (\<lambda>m y. if y > m then y else m) x xs"

text \<open>\<open>str(n)\<close> for an integer, as the f-strings of lines 42 to 44 need it.\<close>

function str_nat :: "nat \<Rightarrow> pystr" where
  "str_nat n = (if n < 10 then [48 + n] else str_nat (n div 10) @ [48 + n mod 10])"
  by pat_completeness auto
termination
  by (relation "measure id") auto

declare str_nat.simps [simp del]

definition str_int :: "int \<Rightarrow> pystr" where
  "str_int i = (if i < 0 then 45 # str_nat (nat (- i)) else str_nat (nat i))"

fun join :: "pystr \<Rightarrow> pystr list \<Rightarrow> pystr" where
  "join sep [] = []"
| "join sep [x] = x"
| "join sep (x # y # ys) = x @ sep @ join sep (y # ys)"

text \<open>Lines 41 to 55: the lines of one host.\<close>

definition latency_lines :: "'t::linorder float_ops \<Rightarrow> 't list \<Rightarrow> pystr list" where
  "latency_lines F ts =
     (case ts of
        [] \<Rightarrow> [ascii ''  Min: -'', ascii ''  Max: -'', ascii ''  Avg: -'']
      | t # rest \<Rightarrow>
          [ascii ''  Min: '' @ fmt4 F (py_min t rest) @ ascii '' s'',
           ascii ''  Max: '' @ fmt4 F (py_max t rest) @ ascii '' s'',
           ascii ''  Avg: '' @ fmt4 F (fdiv F (fsum F ts) (int (length ts))) @ ascii '' s''])"

definition host_lines :: "'t::linorder float_ops \<Rightarrow> pystr \<Rightarrow> 't host_stats \<Rightarrow> pystr list" where
  "host_lines F host d =
     [ascii ''Host: '' @ host,
      ascii ''  Success: '' @ str_int (success d),
      ascii ''  Failed:  '' @ str_int (failed d),
      ascii ''  Errors:  '' @ str_int (errors d)] @
     latency_lines F (times_l d) @ [[]]"

definition report_lines :: "'t::linorder float_ops \<Rightarrow> 't stats \<Rightarrow> pystr list" where
  "report_lines F stats = concat (map (\<lambda>(host, d). host_lines F host d) stats)"

text \<open>
  What the run shows: a text printed on the console, or a text written to a file.  Writing
  is a parameter: \<open>wr path text\<close> is \<open>None\<close> when the file was written and the text of the
  exception otherwise.
\<close>

datatype effect = Printed pystr | Written pystr pystr

definition print_stats ::
  "'t::linorder float_ops \<Rightarrow> (pystr \<Rightarrow> pystr \<Rightarrow> pystr option) \<Rightarrow> 't stats \<Rightarrow> pystr option \<Rightarrow> effect"
where
  "print_stats F wr stats output_file =
     (let output = join [10] (report_lines F stats)
      in case truthy output_file of
           Some path \<Rightarrow>
             (case wr path output of
                None \<Rightarrow> Written path output
              | Some e \<Rightarrow> Printed (msg_write path e))
         | None \<Rightarrow> Printed output)"

section \<open>The run\<close>

text \<open>
  A run ends in one of three ways: an early return that prints a diagnostic, an exception
  that leaves \<open>main\<close>, or the report of the final statistics.  \<open>main\<close> returns, with the way
  it ended, the list of the requests it submitted.
\<close>

datatype 't outcome = Abort diagnostic | Crash error | Done "'t stats" effect

text \<open>Lines 109 to 139: the dictionary, the submission of all tasks, the loop.\<close>

definition run ::
  "pystr list \<Rightarrow> int \<Rightarrow> (nat \<Rightarrow> 't get_result) \<Rightarrow> nat list \<Rightarrow> pystr list \<times> (error + 't stats)"
where
  "run hosts n net order =
     (let stats = init_stats hosts;
          ts = tasks hosts n
      in (ts, aggregate stats (completions ts net order)))"

definition main ::
  "'t::linorder float_ops \<Rightarrow> filesystem \<Rightarrow> (pystr \<Rightarrow> pystr \<Rightarrow> pystr option) \<Rightarrow>
   (nat \<Rightarrow> 't get_result) \<Rightarrow> nat list \<Rightarrow> args \<Rightarrow> pystr list \<times> 't outcome"
where
  "main F fs wr net order a =
     (case get_hosts fs a of
        Inl d \<Rightarrow> ([], Abort d)
      | Inr hosts \<Rightarrow>
          (case find (\<lambda>h. \<not> validate_host h) hosts of
             Some h \<Rightarrow> ([], Abort (BadUrl h))
           | None \<Rightarrow>
               if args_count a < 1 then ([], Abort BadCount)
               else
                 (case run hosts (args_count a) net order of
                    (ts, Inl e) \<Rightarrow> (ts, Crash e)
                  | (ts, Inr stats) \<Rightarrow>
                      (ts, Done stats (print_stats F wr stats (args_output a))))))"

section \<open>Notions used in the statements\<close>

text \<open>The results, among the completions \<open>cs\<close>, of the tasks of host \<open>h\<close>, in their order.\<close>

definition results_for :: "pystr \<Rightarrow> 't completion list \<Rightarrow> (int \<times> 't) option list" where
  "results_for h cs =
     List.map_filter
       (\<lambda>(h', r). case r of Inl e \<Rightarrow> None | Inr res \<Rightarrow> if h' = h then Some res else None) cs"

text \<open>The classes of the specification: a status from 200 to 399, a status from 400 to 599.\<close>

definition is_success :: "(int \<times> 't) option \<Rightarrow> bool" where
  "is_success res =
     (case res of None \<Rightarrow> False | Some (status, elapsed) \<Rightarrow> 200 \<le> status \<and> status \<le> 399)"

definition is_failed :: "(int \<times> 't) option \<Rightarrow> bool" where
  "is_failed res =
     (case res of None \<Rightarrow> False | Some (status, elapsed) \<Rightarrow> 400 \<le> status \<and> status \<le> 599)"

text \<open>The latencies of the successes among a list of results.\<close>

definition latencies :: "(int \<times> 't) option list \<Rightarrow> 't list" where
  "latencies rs = List.map_filter (\<lambda>res. if is_success res then map_option snd res else None) rs"

text \<open>The sum of the three counters of a host, and of all hosts.\<close>

definition counted :: "'t host_stats \<Rightarrow> int" where
  "counted d = success d + failed d + errors d"

definition total :: "'t stats \<Rightarrow> int" where
  "total st = sum_list (map (\<lambda>(h, d). counted d) st)"

text \<open>Completions in which every call of \<open>perform_request\<close> returned.\<close>

definition returned :: "(pystr \<times> (int \<times> 't) option) list \<Rightarrow> 't completion list" where
  "returned xs = map (\<lambda>(h, res). (h, Inr res)) xs"

text \<open>Environments for the examples: no file can be read, every write succeeds.\<close>

definition no_files :: filesystem where
  "no_files path = Inl []"

definition wr_ok :: "pystr \<Rightarrow> pystr \<Rightarrow> pystr option" where
  "wr_ok path text = None"

text \<open>
  A network for the examples: the first two tasks get the statuses 200 and 301, the third gets
  503, the fourth times out, and every later one gets 204.
\<close>

definition net_example :: "nat \<Rightarrow> real get_result" where
  "net_example i =
     (if i = 0 then Response 200 0.5
      else if i = 1 then Response 301 0.125
      else if i = 2 then Response 503 0.25
      else if i = 3 then Raises (Transport TimedOut)
      else Response 204 0.75)"

text \<open>
  Float operations for the examples, on the reals: the exact sum, the exact quotient, and a
  rendering of a non-negative number rounded to four decimals.
\<close>

definition fmt4_example :: "real \<Rightarrow> pystr" where
  "fmt4_example x =
     (let n = nat (round (x * 10000))
      in str_nat (n div 10000) @ [46] @
         [48 + n div 1000 mod 10, 48 + n div 100 mod 10, 48 + n div 10 mod 10, 48 + n mod 10])"

definition ops_example :: "real float_ops" where
  "ops_example = \<lparr>fsum = sum_list, fdiv = (\<lambda>x n. x / of_int n), fmt4 = fmt4_example\<rparr>"

text \<open>Command lines for the examples.\<close>

definition args_inline :: "string \<Rightarrow> int \<Rightarrow> args" where
  "args_inline hs n =
     \<lparr>args_hosts = Some (ascii hs), args_count = n, args_file = None, args_output = None\<rparr>"

definition args_both :: args where
  "args_both =
     \<lparr>args_hosts = Some (ascii ''https://example.com''), args_count = 1,
      args_file = Some (ascii ''hosts.txt''), args_output = None\<rparr>"

definition args_neither :: args where
  "args_neither = \<lparr>args_hosts = None, args_count = 1, args_file = None, args_output = None\<rparr>"

text \<open>
  What the loop counts under \<open>errors\<close>: a task whose request raised a \<open>RequestException\<close> or got
  a status outside 200 to 599.
\<close>

definition counts_as_error :: "'t get_result \<Rightarrow> bool" where
  "counts_as_error g =
     (case g of
        Raises e \<Rightarrow> is_RequestException e
      | Response status elapsed \<Rightarrow> status < 200 \<or> 600 \<le> status)"

text \<open>A network for the examples in which every request raises outside \<open>RequestException\<close>.\<close>

definition net_crash :: "nat \<Rightarrow> real get_result" where
  "net_crash i = Raises OtherException"

section \<open>Properties\<close>

subsection \<open>One step of the loop\<close>

lemma fold_result_Some:
  "map_of st h = Some d \<Longrightarrow> fold_result st h r = Inr (AList.update h (record_result d r) st)"
  by (simp add: fold_result_def)

lemma fold_result_InrD:
  "fold_result st h r = Inr st' \<Longrightarrow>
     \<exists>d. map_of st h = Some d \<and> st' = AList.update h (record_result d r) st"
  by (auto simp: fold_result_def split: option.splits)

lemma update_present_keys:
  "map_of al k = Some v \<Longrightarrow> map fst (AList.update k v' al) = map fst al"
  by (induction al) (auto split: if_splits)

lemma fold_result_keys:
  "fold_result st h r = Inr st' \<Longrightarrow> map fst st' = map fst st"
  by (auto dest!: fold_result_InrD simp: update_present_keys)

lemma counted_record_result: "counted (record_result d res) = counted d + 1"
  by (simp add: counted_def record_result_def split: option.splits prod.splits)

lemma sum_list_update_present:
  "map_of al k = Some v \<Longrightarrow>
     sum_list (map (\<lambda>(h, d). f d) (AList.update k v' al)) =
     sum_list (map (\<lambda>(h, d). f d) al) - f v + (f v' :: int)"
  by (induction al) (auto split: if_splits)

lemma fold_result_total:
  "fold_result st h r = Inr st' \<Longrightarrow> total st' = total st + 1"
  by (auto dest!: fold_result_InrD simp: total_def sum_list_update_present counted_record_result)

subsection \<open>The loop\<close>

lemma results_for_Nil: "results_for h [] = []"
  by (simp add: results_for_def List.map_filter_simps)

lemma results_for_Cons:
  "results_for h ((h', Inr res) # cs) = (if h' = h then res # results_for h cs else results_for h cs)"
  "results_for h ((h', Inl e) # cs) = results_for h cs"
  by (simp_all add: results_for_def List.map_filter_simps)

lemma aggregate_ConsD:
  "aggregate st (c # cs) = Inr st' \<Longrightarrow>
     \<exists>res st1. snd c = Inr res \<and> fold_result st (fst c) res = Inr st1 \<and> aggregate st1 cs = Inr st'"
  by (cases c) (auto split: sum.splits)

lemma aggregate_keys:
  "aggregate st cs = Inr st' \<Longrightarrow> map fst st' = map fst st"
proof (induction cs arbitrary: st)
  case Nil
  then show ?case by simp
next
  case (Cons c cs)
  from aggregate_ConsD[OF Cons.prems] obtain res st1 where
    f: "fold_result st (fst c) res = Inr st1" and a: "aggregate st1 cs = Inr st'"
    by blast
  from Cons.IH[OF a] fold_result_keys[OF f] show ?case by simp
qed

lemma aggregate_total:
  "aggregate st cs = Inr st' \<Longrightarrow> total st' = total st + int (length cs)"
proof (induction cs arbitrary: st)
  case Nil
  then show ?case by simp
next
  case (Cons c cs)
  from aggregate_ConsD[OF Cons.prems] obtain res st1 where
    f: "fold_result st (fst c) res = Inr st1" and a: "aggregate st1 cs = Inr st'"
    by blast
  from Cons.IH[OF a] fold_result_total[OF f] show ?case by simp
qed

lemma aggregate_all_returned:
  "aggregate st cs = Inr st' \<Longrightarrow> \<forall>c \<in> set cs. \<exists>res. snd c = Inr res"
proof (induction cs arbitrary: st)
  case Nil
  then show ?case by simp
next
  case (Cons c cs)
  from aggregate_ConsD[OF Cons.prems] obtain res st1 where
    r: "snd c = Inr res" and a: "aggregate st1 cs = Inr st'"
    by blast
  from Cons.IH[OF a] r show ?case by simp
qed

lemma aggregate_map_of:
  "aggregate st cs = Inr st' \<Longrightarrow>
     map_of st' h = map_option (\<lambda>d. foldl record_result d (results_for h cs)) (map_of st h)"
proof (induction cs arbitrary: st)
  case Nil
  then show ?case by (simp add: results_for_Nil option.map_ident)
next
  case (Cons c cs)
  obtain k r where c: "c = (k, r)" by (cases c)
  from aggregate_ConsD[OF Cons.prems] c obtain res st1 where
    r: "r = Inr res" and f: "fold_result st k res = Inr st1" and a: "aggregate st1 cs = Inr st'"
    by auto
  from fold_result_InrD[OF f] obtain d where
    d: "map_of st k = Some d" and st1: "st1 = AList.update k (record_result d res) st"
    by blast
  have "map_of st1 h = (if h = k then Some (record_result d res) else map_of st h)"
    by (simp add: st1 update_conv')
  with Cons.IH[OF a] d show ?case
    by (simp add: c r results_for_Cons)
qed

lemma aggregate_append:
  "aggregate st (xs @ ys) = (case aggregate st xs of Inl e \<Rightarrow> Inl e | Inr st1 \<Rightarrow> aggregate st1 ys)"
proof (induction xs arbitrary: st)
  case Nil
  then show ?case by simp
next
  case (Cons c xs)
  obtain k r where c: "c = (k, r)" by (cases c)
  show ?case by (simp add: c Cons.IH split: sum.splits)
qed

lemma aggregate_defined:
  "\<forall>c \<in> set cs. fst c \<in> fst ` set st \<and> (\<exists>res. snd c = Inr res) \<Longrightarrow> \<exists>st'. aggregate st cs = Inr st'"
proof (induction cs arbitrary: st)
  case Nil
  then show ?case by simp
next
  case (Cons c cs)
  obtain k r where c: "c = (k, r)" by (cases c)
  from Cons.prems c obtain res where r: "r = Inr res" and k: "k \<in> fst ` set st"
    by auto
  from k obtain d where d: "map_of st k = Some d"
    by (metis domD dom_map_of_conv_image_fst)
  let ?st1 = "AList.update k (record_result d res) st"
  have "fst ` set ?st1 = fst ` set st"
    using update_present_keys[OF d, of "record_result d res"] by (metis list.set_map)
  with Cons.prems have "\<forall>c \<in> set cs. fst c \<in> fst ` set ?st1 \<and> (\<exists>res. snd c = Inr res)"
    by simp
  from Cons.IH[OF this] show ?case
    by (simp add: c r fold_result_Some[OF d])
qed

subsection \<open>The record of one host after a list of results\<close>

lemma latencies_Nil: "latencies [] = []"
  by (simp add: latencies_def List.map_filter_simps)

lemma latencies_snoc:
  "latencies (rs @ [res]) =
     (case res of None \<Rightarrow> latencies rs
      | Some (status, elapsed) \<Rightarrow>
          if 200 \<le> status \<and> status \<le> 399 then latencies rs @ [elapsed] else latencies rs)"
  by (simp add: latencies_def List.map_filter_def is_success_def split: option.splits)

lemma foldl_record_result:
  "success (foldl record_result d rs) = success d + int (length (filter is_success rs)) \<and>
   failed (foldl record_result d rs) = failed d + int (length (filter is_failed rs)) \<and>
   errors (foldl record_result d rs) =
     errors d + int (length (filter (\<lambda>res. \<not> is_success res \<and> \<not> is_failed res) rs)) \<and>
   times_l (foldl record_result d rs) = times_l d @ latencies rs"
proof (induction rs rule: rev_induct)
  case Nil
  then show ?case by (simp add: latencies_Nil)
next
  case (snoc res rs)
  then show ?case
    by (auto simp: record_result_def is_success_def is_failed_def latencies_snoc
        split: option.splits)
qed

lemma length_latencies: "length (latencies rs) = length (filter is_success rs)"
  by (induction rs rule: rev_induct)
    (auto simp: latencies_Nil latencies_snoc is_success_def split: option.splits)

lemma counted_foldl: "counted (foldl record_result d rs) = counted d + int (length rs)"
  by (induction rs rule: rev_induct) (simp_all add: counted_record_result)

subsection \<open>The initial dictionary\<close>

lemma init_stats_gen:
  "map_of (foldl (\<lambda>d host. AList.update host z d) acc hosts) h =
     (if h \<in> set hosts then Some z else map_of acc h)"
  by (induction hosts arbitrary: acc) (auto simp: update_conv')

lemma map_of_init_stats:
  "map_of (init_stats hosts) h = (if h \<in> set hosts then Some zero_stats else None)"
  by (simp add: init_stats_def init_stats_gen)

lemma init_stats_distinct_gen:
  "distinct (map fst acc) \<Longrightarrow> distinct (map fst (foldl (\<lambda>d host. AList.update host z d) acc hosts))"
  by (induction hosts arbitrary: acc) (auto simp: distinct_update)

lemma distinct_init_stats: "distinct (map fst (init_stats hosts))"
  by (simp add: init_stats_def init_stats_distinct_gen)

lemma keys_init_stats: "fst ` set (init_stats hosts) = set hosts"
proof -
  have "dom (map_of (init_stats hosts :: (pystr \<times> 'a host_stats) list)) = set hosts"
    by (auto simp: map_of_init_stats dom_def)
  then show ?thesis by (simp add: dom_map_of_conv_image_fst)
qed

lemma init_stats_zero: "(h, d) \<in> set (init_stats hosts) \<Longrightarrow> d = zero_stats"
proof -
  assume "(h, d) \<in> set (init_stats hosts)"
  with distinct_init_stats have "map_of (init_stats hosts) h = Some d"
    by (metis map_of_is_SomeI)
  then show ?thesis by (simp add: map_of_init_stats split: if_splits)
qed

lemma sum_list_all_zero: "\<forall>x \<in> set xs. f x = (0::int) \<Longrightarrow> sum_list (map f xs) = 0"
  by (induction xs) simp_all

lemma total_init_stats: "total (init_stats hosts) = 0"
proof -
  have "\<forall>x \<in> set (init_stats hosts :: (pystr \<times> 'a host_stats) list). (\<lambda>(h, d). counted d) x = 0"
    by (auto dest: init_stats_zero simp: counted_def zero_stats_def)
  then show ?thesis
    unfolding total_def by (rule sum_list_all_zero)
qed

text \<open>
  C1.  One iteration of the aggregation loop on the completed task of a host whose record is
  \<open>d\<close>: a status from 200 to 399 adds one to \<open>success\<close> and appends the elapsed time; a status
  from 400 to 599 adds one to \<open>failed\<close> and records no time; every other status (below 200,
  so also 100 to 199, or from 600 on) and every \<open>RequestException\<close> (status \<open>None\<close>) adds one
  to \<open>errors\<close>.  Nothing else in the record changes.
\<close>

theorem result_classification:
  assumes "map_of stats host = Some d"
  shows
    "(200 \<le> status \<and> status \<le> 399 \<longrightarrow>
        aggregate stats [(host, perform_request (Response status elapsed))] =
          Inr (AList.update host
                (d\<lparr>success := success d + 1, times_l := times_l d @ [elapsed]\<rparr>) stats)) \<and>
     (400 \<le> status \<and> status \<le> 599 \<longrightarrow>
        aggregate stats [(host, perform_request (Response status elapsed))] =
          Inr (AList.update host (d\<lparr>failed := failed d + 1\<rparr>) stats)) \<and>
     (status < 200 \<or> 600 \<le> status \<longrightarrow>
        aggregate stats [(host, perform_request (Response status elapsed))] =
          Inr (AList.update host (d\<lparr>errors := errors d + 1\<rparr>) stats)) \<and>
     (is_RequestException e \<longrightarrow>
        aggregate stats [(host, perform_request (Raises e :: 't get_result))] =
          Inr (AList.update host (d\<lparr>errors := errors d + 1\<rparr>) stats))"
proof -
  have "200 \<le> status \<and> status \<le> 399 \<longrightarrow>
      record_result d (Some (status, elapsed)) =
        d\<lparr>success := success d + 1, times_l := times_l d @ [elapsed]\<rparr>"
    by (simp add: record_result_def)
  moreover have "400 \<le> status \<and> status \<le> 599 \<longrightarrow>
      record_result d (Some (status, elapsed)) = d\<lparr>failed := failed d + 1\<rparr>"
    by (simp add: record_result_def)
  moreover have "status < 200 \<or> 600 \<le> status \<longrightarrow>
      record_result d (Some (status, elapsed)) = d\<lparr>errors := errors d + 1\<rparr>"
    by (auto simp: record_result_def)
  moreover have "record_result d None = d\<lparr>errors := errors d + 1\<rparr>"
    by (simp add: record_result_def)
  ultimately show ?thesis
    by (simp add: perform_request_def fold_result_Some[OF assms])
qed

theorem result_classification_witness:
  "aggregate [(ascii ''https://a.io'', zero_stats)] [(ascii ''https://a.io'', perform_request (Response 204 (0.25::real)))] =
     Inr [(ascii ''https://a.io'', \<lparr>success = 1, failed = 0, errors = 0, times_l = [0.25]\<rparr>)] \<and>
   aggregate [(ascii ''https://a.io'', zero_stats)] [(ascii ''https://a.io'', perform_request (Response 503 (0.25::real)))] =
     Inr [(ascii ''https://a.io'', \<lparr>success = 0, failed = 1, errors = 0, times_l = []\<rparr>)] \<and>
   aggregate [(ascii ''https://a.io'', zero_stats)] [(ascii ''https://a.io'', perform_request (Response 100 (0.25::real)))] =
     Inr [(ascii ''https://a.io'', \<lparr>success = 0, failed = 0, errors = 1, times_l = []\<rparr>)] \<and>
   aggregate [(ascii ''https://a.io'', zero_stats)] [(ascii ''https://a.io'', perform_request (Response 600 (0.25::real)))] =
     Inr [(ascii ''https://a.io'', \<lparr>success = 0, failed = 0, errors = 1, times_l = []\<rparr>)] \<and>
   aggregate [(ascii ''https://a.io'', zero_stats)] [(ascii ''https://a.io'', perform_request (Raises (Transport TimedOut) :: real get_result))] =
     Inr [(ascii ''https://a.io'', \<lparr>success = 0, failed = 0, errors = 1, times_l = []\<rparr>)]"
proof -
  have m: "map_of [(ascii ''https://a.io'', zero_stats :: real host_stats)] (ascii ''https://a.io'') = Some zero_stats"
    by simp
  show ?thesis
    using result_classification[OF m, of 204 "0.25"]
      result_classification[OF m, of 503 "0.25"]
      result_classification[OF m, of 100 "0.25"]
      result_classification[OF m, of 600 "0.25" "Transport TimedOut"]
    by (auto simp: zero_stats_def)
qed

lemma results_for_returned:
  "\<forall>c \<in> set cs. \<exists>res. snd c = Inr res \<Longrightarrow>
     length (results_for h cs) = length (filter (\<lambda>c. fst c = h) cs)"
proof (induction cs)
  case Nil
  then show ?case by (simp add: results_for_Nil)
next
  case (Cons c cs)
  obtain k r where c: "c = (k, r)" by (cases c)
  from Cons.prems c obtain res where r: "r = Inr res" by auto
  from Cons show ?case by (simp add: c r results_for_Cons)
qed

lemma aggregate_init_entry:
  assumes "aggregate (init_stats hosts) cs = Inr st" and "(h, d) \<in> set st"
  shows "h \<in> set hosts \<and> d = foldl record_result zero_stats (results_for h cs)"
proof -
  have keys: "map fst st = map fst (init_stats hosts :: (pystr \<times> 'a host_stats) list)"
    by (rule aggregate_keys[OF assms(1)])
  then have "distinct (map fst st)"
    by (simp add: distinct_init_stats)
  with assms(2) have "map_of st h = Some d"
    by (metis map_of_is_SomeI)
  then show ?thesis
    by (auto simp: aggregate_map_of[OF assms(1)] map_of_init_stats split: if_splits)
qed

lemma aggregate_init_defined:
  assumes "set (map fst cs) \<subseteq> set hosts" and "\<forall>c \<in> set cs. \<exists>res. snd c = Inr res"
  shows "\<exists>st. aggregate (init_stats hosts) cs = Inr st"
proof (rule aggregate_defined)
  show "\<forall>c\<in>set cs. fst c \<in> fst ` set (init_stats hosts) \<and> (\<exists>res. snd c = Inr res)"
    using assms by (auto simp: keys_init_stats)
qed

text \<open>
  C3.  In the state reached after folding any list \<open>cs\<close> of completions into the initial
  dictionary, the record of every host holds as many latency samples as it counts successes:
  the samples are the elapsed times of the host's results with a status from 200 to 399.  One
  more result appends its elapsed time exactly when its status is from 200 to 399.
\<close>

theorem latency_samples_match_successes:
  assumes "aggregate (init_stats hosts) cs = Inr st" and "(h, d) \<in> set st"
  shows "int (length (times_l d)) = success d \<and>
     times_l d = latencies (results_for h cs) \<and>
     times_l (record_result d None) = times_l d \<and>
     times_l (record_result d (Some (status, elapsed))) =
       (if 200 \<le> status \<and> status \<le> 399 then times_l d @ [elapsed] else times_l d)"
proof -
  from aggregate_init_entry[OF assms]
  have d: "d = foldl record_result zero_stats (results_for h cs)"
    by simp
  have "success d = int (length (filter is_success (results_for h cs)))"
    and t: "times_l d = latencies (results_for h cs)"
    using foldl_record_result[of zero_stats "results_for h cs"]
    by (simp_all add: d zero_stats_def)
  then have "int (length (times_l d)) = success d"
    by (simp add: length_latencies)
  moreover have "times_l (record_result d None) = times_l d"
    by (simp add: record_result_def)
  moreover have "times_l (record_result d (Some (status, elapsed))) =
       (if 200 \<le> status \<and> status \<le> 399 then times_l d @ [elapsed] else times_l d)"
    by (simp add: record_result_def)
  ultimately show ?thesis
    using t by blast
qed

theorem latency_samples_match_successes_witness:
  "aggregate (init_stats [[97], [98]])
       [([97], Inr (Some (200, 0.5::real))), ([98], Inr (Some (503, 0.25))),
        ([97], Inr None), ([97], Inr (Some (301, 0.125)))] =
     Inr [([97], \<lparr>success = 2, failed = 0, errors = 1, times_l = [0.5, 0.125]\<rparr>),
          ([98], \<lparr>success = 0, failed = 1, errors = 0, times_l = []\<rparr>)] \<and>
   int (length (times_l \<lparr>success = 2, failed = 0, errors = 1, times_l = [0.5, 0.125::real]\<rparr>)) =
     success \<lparr>success = 2, failed = 0, errors = 1, times_l = [0.5, 0.125::real]\<rparr>"
proof -
  let ?cs = "[([97], Inr (Some (200, 0.5::real))), ([98], Inr (Some (503, 0.25))),
        ([97], Inr None), ([97], Inr (Some (301, 0.125)))]"
  let ?d = "\<lparr>success = 2, failed = 0, errors = 1, times_l = [0.5, 0.125::real]\<rparr>"
  let ?st = "[([97], ?d), ([98], \<lparr>success = 0, failed = 1, errors = 0, times_l = []\<rparr>)]"
  have a: "aggregate (init_stats [[97], [98]]) ?cs = Inr ?st"
    by (simp add: init_stats_def zero_stats_def fold_result_def record_result_def)
  have m: "([97], ?d) \<in> set ?st"
    by simp
  from latency_samples_match_successes[OF a m]
  have "int (length (times_l ?d)) = success ?d"
    by (rule conjunct1)
  with a show ?thesis
    by (rule conjI)
qed

subsection \<open>Dispatch\<close>

lemma length_tasks: "length (tasks hosts n) = length hosts * nat n"
  by (induction hosts) (simp_all add: tasks_def)

lemma count_tasks:
  "length (filter (\<lambda>x. x = h) (tasks hosts n)) = count_list hosts h * nat n"
  by (induction hosts) (simp_all add: tasks_def)

lemma set_tasks: "set (tasks hosts n) \<subseteq> set hosts"
  by (auto simp: tasks_def)

lemma length_completions: "length (completions ts net order) = length order"
  by (simp add: completions_def)

lemma schedule_length: "is_schedule order n \<Longrightarrow> length order = n"
  by (metis is_schedule_def length_upt minus_nat.diff_0 size_mset)

lemma mset_completions_hosts:
  assumes "is_schedule order (length ts)"
  shows "mset (map fst (completions ts net order)) = mset ts"
proof -
  have "mset (map fst (completions ts net order)) = image_mset ((!) ts) (mset order)"
    by (simp add: completions_def comp_def)
  also have "\<dots> = mset (map ((!) ts) [0..<length ts])"
    using assms by (simp add: is_schedule_def)
  finally show ?thesis by (simp add: map_nth)
qed

lemma count_completions:
  assumes "is_schedule order (length ts)"
  shows "length (filter (\<lambda>c. fst c = h) (completions ts net order)) = length (filter (\<lambda>x. x = h) ts)"
proof -
  have "length (filter (\<lambda>c. fst c = h) (completions ts net order)) =
      length (filter (\<lambda>x. x = h) (map fst (completions ts net order)))"
    by (simp add: filter_map comp_def)
  also have "\<dots> = size (filter_mset (\<lambda>x. x = h) (mset (map fst (completions ts net order))))"
    by (metis mset_filter size_mset)
  also have "\<dots> = size (filter_mset (\<lambda>x. x = h) (mset ts))"
    by (simp only: mset_completions_hosts[OF assms])
  finally show ?thesis
    by (metis mset_filter size_mset)
qed

lemma run_InrD:
  "run hosts n net order = (ts, Inr st) \<Longrightarrow>
     ts = tasks hosts n \<and> aggregate (init_stats hosts) (completions ts net order) = Inr st"
  by (auto simp: run_def Let_def)

lemma aggregate_take:
  "aggregate st cs = Inr st' \<Longrightarrow> \<exists>st1. aggregate st (take k cs) = Inr st1"
proof -
  assume a: "aggregate st cs = Inr st'"
  have "aggregate st (take k cs @ drop k cs) = Inr st'"
    using a by simp
  then show ?thesis
    by (simp only: aggregate_append split: sum.splits) auto
qed

lemma length_init_stats: "length (init_stats hosts :: 't stats) = card (set hosts)"
proof -
  let ?s = "init_stats hosts :: 't stats"
  have "distinct (map fst ?s)"
    by (rule distinct_init_stats)
  then have "card (set (map fst ?s)) = length (map fst ?s)"
    by (rule distinct_card)
  then show ?thesis
    by (simp add: keys_init_stats)
qed

lemma record_result_one_counter:
  "(success (record_result d res) = success d + 1 \<and> failed (record_result d res) = failed d \<and>
      errors (record_result d res) = errors d) \<or>
   (success (record_result d res) = success d \<and> failed (record_result d res) = failed d + 1 \<and>
      errors (record_result d res) = errors d) \<or>
   (success (record_result d res) = success d \<and> failed (record_result d res) = failed d \<and>
      errors (record_result d res) = errors d + 1)"
  by (simp add: record_result_def split: option.splits prod.splits)

lemma aggregate_init_counted:
  assumes "aggregate (init_stats hosts) cs = Inr st" and "(h, d) \<in> set st"
  shows "counted d = int (length (filter (\<lambda>c. fst c = h) cs))"
proof -
  from aggregate_init_entry[OF assms]
  have "d = foldl record_result zero_stats (results_for h cs)"
    by simp
  then have "counted d = int (length (results_for h cs))"
    by (simp add: counted_foldl) (simp add: counted_def zero_stats_def)
  then show ?thesis
    by (simp add: results_for_returned[OF aggregate_all_returned[OF assms(1)]])
qed

text \<open>
  C2, as the code has it.  In a run that completes, at every point \<open>k\<close> of the loop the three
  counters of every host add up to the number of that host's tasks among the first \<open>k\<close>
  completions, and every folded result adds one to exactly one of the three counters.  At the
  end the counters of all hosts add up to the length of the list of hosts, a host listed
  several times counted each time, times the count.  The dictionary has one entry for each
  distinct host, so this is the number of entries times the count when no host is listed more
  than once, and more than that otherwise.
\<close>

theorem counters_account_for_tasks:
  assumes "run hosts n net order = (ts, Inr st)"
    and "is_schedule order (length ts)"
    and "1 \<le> n"
  shows "(\<exists>st_k. aggregate (init_stats hosts) (take k (completions ts net order)) = Inr st_k \<and>
          (\<forall>h d. (h, d) \<in> set st_k \<longrightarrow>
             counted d = int (length (filter (\<lambda>c. fst c = h) (take k (completions ts net order)))))) \<and>
     ((success (record_result d0 res) = success d0 + 1 \<and> failed (record_result d0 res) = failed d0 \<and>
         errors (record_result d0 res) = errors d0) \<or>
      (success (record_result d0 res) = success d0 \<and> failed (record_result d0 res) = failed d0 + 1 \<and>
         errors (record_result d0 res) = errors d0) \<or>
      (success (record_result d0 res) = success d0 \<and> failed (record_result d0 res) = failed d0 \<and>
         errors (record_result d0 res) = errors d0 + 1)) \<and>
     total st = int (length hosts) * n \<and>
     length st = card (set hosts) \<and>
     (distinct hosts \<longrightarrow> total st = int (length st) * n)"
proof -
  from run_InrD[OF assms(1)] have ts: "ts = tasks hosts n"
    by (rule conjunct1)
  from run_InrD[OF assms(1)]
  have a: "aggregate (init_stats hosts) (completions ts net order) = Inr st"
    by (rule conjunct2)
  from aggregate_take[OF a] obtain st_k where
    k: "aggregate (init_stats hosts) (take k (completions ts net order)) = Inr st_k"
    by blast
  have part1: "\<exists>st_k. aggregate (init_stats hosts) (take k (completions ts net order)) = Inr st_k \<and>
          (\<forall>h d. (h, d) \<in> set st_k \<longrightarrow>
             counted d = int (length (filter (\<lambda>c. fst c = h) (take k (completions ts net order)))))"
    using k aggregate_init_counted[OF k] by blast
  have "total st = int (length (completions ts net order))"
    using aggregate_total[OF a] by (simp add: total_init_stats)
  also have "\<dots> = int (length ts)"
    by (simp add: length_completions schedule_length[OF assms(2)])
  also have "\<dots> = int (length hosts) * n"
    using assms(3) by (simp add: ts length_tasks)
  finally have part3: "total st = int (length hosts) * n" .
  have "length st = length (map fst st)"
    by simp
  also have "\<dots> = length (init_stats hosts :: 'a stats)"
    by (simp only: aggregate_keys[OF a] length_map)
  finally have part4: "length st = card (set hosts)"
    by (simp add: length_init_stats)
  have part5: "distinct hosts \<longrightarrow> total st = int (length st) * n"
    by (simp add: part3 part4 distinct_card)
  from part1 record_result_one_counter[of d0 res] part3 part4 part5 show ?thesis
    by blast
qed


theorem counters_account_for_tasks_witness:
  "run [[97], [98]] 2 net_example [3, 1, 0, 2] =
     ([[97], [97], [98], [98]],
      Inr [([97], \<lparr>success = 2, failed = 0, errors = 0, times_l = [0.125, 0.5]\<rparr>),
           ([98], \<lparr>success = 0, failed = 1, errors = 1, times_l = []\<rparr>)]) \<and>
   is_schedule [3, 1, 0, 2] (length [[97], [97], [98], [98::nat]]) \<and>
   total [([97], \<lparr>success = 2, failed = 0, errors = 0, times_l = [0.125, 0.5::real]\<rparr>),
          ([98], \<lparr>success = 0, failed = 1, errors = 1, times_l = []\<rparr>)] =
     int (length [[97], [98::nat]]) * 2"
proof -
  let ?st = "[([97], \<lparr>success = 2, failed = 0, errors = 0, times_l = [0.125, 0.5::real]\<rparr>),
           ([98], \<lparr>success = 0, failed = 1, errors = 1, times_l = []\<rparr>)]"
  have r: "run [[97], [98]] 2 net_example [3, 1, 0, 2] = ([[97], [97], [98], [98]], Inr ?st)"
    by (simp add: run_def tasks_def completions_def net_example_def perform_request_def
        init_stats_def zero_stats_def fold_result_def record_result_def numeral_eq_Suc)
  have s: "is_schedule [3, 1, 0, 2] (length [[97], [97], [98], [98::nat]])"
    by (simp add: is_schedule_def upt_rec[of _ 4] upt_rec[of _ "Suc _"] numeral_eq_Suc)
  have n: "(1::int) \<le> 2"
    by simp
  from counters_account_for_tasks[OF r s n]
  have "total ?st = int (length [[97], [98::nat]]) * 2"
    by blast
  with r s show ?thesis
    by blast
qed

theorem counters_account_for_tasks_counterexample:
  "main ops_example no_files wr_ok net_example [1, 0] (args_inline ''https://a.io,https://a.io'' 1) =
     ([ascii ''https://a.io'', ascii ''https://a.io''],
      Done [(ascii ''https://a.io'', \<lparr>success = 2, failed = 0, errors = 0, times_l = [0.125, 0.5]\<rparr>)]
        (print_stats ops_example wr_ok
           [(ascii ''https://a.io'', \<lparr>success = 2, failed = 0, errors = 0, times_l = [0.125, 0.5]\<rparr>)]
           None)) \<and>
   is_schedule [1, 0] (length [ascii ''https://a.io'', ascii ''https://a.io'']) \<and>
   length [(ascii ''https://a.io'', \<lparr>success = 2, failed = 0, errors = 0, times_l = [0.125, 0.5::real]\<rparr>)] = 1 \<and>
   total [(ascii ''https://a.io'', \<lparr>success = 2, failed = 0, errors = 0, times_l = [0.125, 0.5::real]\<rparr>)] = 2 \<and>
   total [(ascii ''https://a.io'', \<lparr>success = 2, failed = 0, errors = 0, times_l = [0.125, 0.5::real]\<rparr>)] \<noteq>
     int (length [(ascii ''https://a.io'',
                   \<lparr>success = 2, failed = 0, errors = 0, times_l = [0.125, 0.5::real]\<rparr>)]) * 1"
proof -
  let ?a = "args_inline ''https://a.io,https://a.io'' 1"
  let ?A = "ascii ''https://a.io''"
  let ?st = "[(?A, \<lparr>success = 2, failed = 0, errors = 0, times_l = [0.125, 0.5::real]\<rparr>)]"
  have g: "get_hosts no_files ?a = Inr [?A, ?A]"
    by (simp add: get_hosts_def args_inline_def truthy_def ascii_def)
  have v: "validate_host ?A"
    by (simp add: validate_host_def match_anchored_def URL_REGEX_def ascii_def plus_rx_def
        opt_rx_def host_char_def is_space_def)
  have f: "find (\<lambda>h. \<not> validate_host h) [?A, ?A] = None"
    using v by simp
  have n: "args_count ?a = 1"
    by (simp add: args_inline_def)
  have o: "args_output ?a = None"
    by (simp add: args_inline_def)
  have r: "run [?A, ?A] 1 net_example [1, 0] = ([?A, ?A], Inr ?st)"
    by (simp add: run_def tasks_def completions_def net_example_def perform_request_def
        init_stats_def zero_stats_def fold_result_def record_result_def ascii_def)
  have m: "main ops_example no_files wr_ok net_example [1, 0] ?a =
      ([?A, ?A], Done ?st (print_stats ops_example wr_ok ?st None))"
    by (simp only: main_def g sum.case f option.case n o less_irrefl if_False r prod.case)
  have s: "is_schedule [1, 0] (length [?A, ?A])"
    by (simp add: is_schedule_def upt_rec[of _ 2] upt_rec[of _ "Suc _"] numeral_eq_Suc)
  have l: "length ?st = 1"
    by simp
  have t: "total ?st = 2"
    by (simp add: total_def counted_def)
  have d: "total ?st \<noteq> int (length ?st) * 1"
    unfolding t l by simp
  from m s l t d show ?thesis
    by (intro conjI)
qed

subsection \<open>Independence of the order\<close>

lemma mset_map_filter_cong:
  assumes "mset xs = mset ys"
  shows "mset (map g (filter P xs)) = mset (map g (filter P ys))"
proof -
  from assms have "image_mset g (filter_mset P (mset xs)) = image_mset g (filter_mset P (mset ys))"
    by simp
  then show ?thesis
    by simp
qed

lemma results_for_returned_eq:
  "results_for h (returned xs) = map snd (filter (\<lambda>x. fst x = h) xs)"
  by (induction xs) (auto simp: returned_def results_for_Nil results_for_Cons)

lemma mset_results_for_returned:
  "mset xs = mset ys \<Longrightarrow> mset (results_for h (returned xs)) = mset (results_for h (returned ys))"
  unfolding results_for_returned_eq by (rule mset_map_filter_cong)

lemma length_filter_mset_cong:
  "mset rs = mset rs' \<Longrightarrow> length (filter P rs) = length (filter P rs')"
  by (metis mset_filter size_mset)

lemma mset_latencies_cong:
  "mset rs = mset rs' \<Longrightarrow> mset (latencies rs) = mset (latencies rs')"
  unfolding latencies_def List.map_filter_def by (rule mset_map_filter_cong)

lemma foldl_record_result_mset:
  assumes "mset rs = mset rs'"
  shows "success (foldl record_result d rs) = success (foldl record_result d rs') \<and>
     failed (foldl record_result d rs) = failed (foldl record_result d rs') \<and>
     errors (foldl record_result d rs) = errors (foldl record_result d rs') \<and>
     mset (times_l (foldl record_result d rs)) = mset (times_l (foldl record_result d rs'))"
  using foldl_record_result[of d rs] foldl_record_result[of d rs']
    length_filter_mset_cong[OF assms, of is_success]
    length_filter_mset_cong[OF assms, of is_failed]
    length_filter_mset_cong[OF assms, of "\<lambda>res. \<not> is_success res \<and> \<not> is_failed res"]
    mset_latencies_cong[OF assms]
  by simp

lemma returned_defined:
  assumes "fst ` set xs \<subseteq> set hosts"
  shows "\<exists>st. aggregate (init_stats hosts) (returned xs) = Inr st"
proof (rule aggregate_init_defined)
  show "set (map fst (returned xs)) \<subseteq> set hosts"
    using assms by (auto simp: returned_def)
  show "\<forall>c\<in>set (returned xs). \<exists>res. snd c = Inr res"
    by (auto simp: returned_def)
qed

text \<open>
  C4.  Two lists \<open>xs\<close> and \<open>ys\<close> of (target, outcome) pairs that are permutations of each other,
  with targets among \<open>hosts\<close>, are both folded into the initial dictionary without error, and
  the two final dictionaries have the same keys in the same order and, for every target, the
  same three counters and the same multiset of latency samples.
\<close>

theorem folding_order_independent:
  assumes "mset xs = mset ys" and "fst ` set xs \<subseteq> set hosts"
  shows "\<exists>a b. aggregate (init_stats hosts) (returned xs) = Inr a \<and>
     aggregate (init_stats hosts) (returned ys) = Inr b \<and>
     map fst a = map fst b \<and>
     (\<forall>h \<in> set hosts. \<exists>da db. map_of a h = Some da \<and> map_of b h = Some db \<and>
        success da = success db \<and> failed da = failed db \<and> errors da = errors db \<and>
        mset (times_l da) = mset (times_l db))"
proof -
  from assms have ys: "fst ` set ys \<subseteq> set hosts"
    by (metis set_mset_mset)
  from returned_defined[OF assms(2)] obtain a where
    a: "aggregate (init_stats hosts) (returned xs) = Inr a" by blast
  from returned_defined[OF ys] obtain b where
    b: "aggregate (init_stats hosts) (returned ys) = Inr b" by blast
  have keys: "map fst a = map fst b"
    by (simp add: aggregate_keys[OF a] aggregate_keys[OF b])
  have "\<exists>da db. map_of a h = Some da \<and> map_of b h = Some db \<and>
        success da = success db \<and> failed da = failed db \<and> errors da = errors db \<and>
        mset (times_l da) = mset (times_l db)" if h: "h \<in> set hosts" for h
  proof -
    let ?da = "foldl record_result zero_stats (results_for h (returned xs))"
    let ?db = "foldl record_result zero_stats (results_for h (returned ys))"
    have "map_of a h = Some ?da"
      by (simp add: aggregate_map_of[OF a] map_of_init_stats h)
    moreover have "map_of b h = Some ?db"
      by (simp add: aggregate_map_of[OF b] map_of_init_stats h)
    ultimately show ?thesis
      using foldl_record_result_mset[OF mset_results_for_returned[OF assms(1), of h], of zero_stats]
      by blast
  qed
  with a b keys show ?thesis
    by blast
qed

theorem folding_order_independent_witness:
  "aggregate (init_stats [[97], [98]])
       (returned [([97], Some (200, 0.5::real)), ([98], None), ([97], Some (301, 0.125))]) =
     Inr [([97], \<lparr>success = 2, failed = 0, errors = 0, times_l = [0.5, 0.125]\<rparr>),
          ([98], \<lparr>success = 0, failed = 0, errors = 1, times_l = []\<rparr>)] \<and>
   aggregate (init_stats [[97], [98]])
       (returned [([97], Some (301, 0.125::real)), ([97], Some (200, 0.5)), ([98], None)]) =
     Inr [([97], \<lparr>success = 2, failed = 0, errors = 0, times_l = [0.125, 0.5]\<rparr>),
          ([98], \<lparr>success = 0, failed = 0, errors = 1, times_l = []\<rparr>)] \<and>
   mset [0.5, 0.125::real] = mset [0.125, 0.5]"
proof -
  let ?xs = "[([97], Some (200, 0.5::real)), ([98], None), ([97], Some (301, 0.125))]"
  let ?ys = "[([97], Some (301, 0.125::real)), ([97], Some (200, 0.5)), ([98], None)]"
  let ?a = "[([97], \<lparr>success = 2, failed = 0, errors = 0, times_l = [0.5, 0.125::real]\<rparr>),
          ([98], \<lparr>success = 0, failed = 0, errors = 1, times_l = []\<rparr>)]"
  let ?b = "[([97], \<lparr>success = 2, failed = 0, errors = 0, times_l = [0.125, 0.5::real]\<rparr>),
          ([98], \<lparr>success = 0, failed = 0, errors = 1, times_l = []\<rparr>)]"
  have p: "mset ?xs = mset ?ys"
    by simp
  have t: "fst ` set ?xs \<subseteq> set [[97], [98]]"
    by simp
  have a: "aggregate (init_stats [[97], [98]]) (returned ?xs) = Inr ?a"
    by (simp add: returned_def init_stats_def zero_stats_def fold_result_def record_result_def)
  have b: "aggregate (init_stats [[97], [98]]) (returned ?ys) = Inr ?b"
    by (simp add: returned_def init_stats_def zero_stats_def fold_result_def record_result_def)
  from folding_order_independent[OF p t] obtain a' b' where
    "aggregate (init_stats [[97], [98]]) (returned ?xs) = Inr a'"
    "aggregate (init_stats [[97], [98]]) (returned ?ys) = Inr b'"
    and h: "\<forall>h \<in> set [[97], [98]]. \<exists>da db. map_of a' h = Some da \<and> map_of b' h = Some db \<and>
        success da = success db \<and> failed da = failed db \<and> errors da = errors db \<and>
        mset (times_l da) = mset (times_l db)"
    by blast
  with a b have "a' = ?a" "b' = ?b"
    by simp_all
  with h have "mset [0.5, 0.125::real] = mset [0.125, 0.5]"
    by simp
  with a b show ?thesis
    by blast
qed

subsection \<open>Runs without an uncaught exception\<close>

lemma perform_request_returns:
  "(\<forall>e. g = Raises e \<longrightarrow> is_RequestException e) \<Longrightarrow> \<exists>res. perform_request g = Inr res"
  by (cases g) (simp_all add: perform_request_def)

lemma run_defined:
  assumes "\<forall>i \<in> set order. i < length (tasks hosts n) \<and> (\<forall>e. net i = Raises e \<longrightarrow> is_RequestException e)"
  shows "\<exists>st. run hosts n net order = (tasks hosts n, Inr st)"
proof -
  let ?cs = "completions (tasks hosts n) net order"
  have "set (map fst ?cs) \<subseteq> set hosts"
    using assms set_tasks[of hosts n] by (auto simp: completions_def)
  moreover have "\<forall>c \<in> set ?cs. \<exists>res. snd c = Inr res"
    using assms by (auto simp: completions_def intro: perform_request_returns)
  ultimately obtain st where "aggregate (init_stats hosts) ?cs = Inr st"
    using aggregate_init_defined by blast
  then show ?thesis
    by (simp add: run_def)
qed

lemma results_errors_count:
  assumes "\<forall>i \<in> set order. \<forall>e. net i = Raises e \<longrightarrow> is_RequestException e"
  shows "length (filter (\<lambda>res. \<not> is_success res \<and> \<not> is_failed res)
            (results_for h (completions ts net order))) =
         length (filter (\<lambda>i. ts ! i = h \<and> counts_as_error (net i)) order)"
  using assms
proof (induction order)
  case Nil
  then show ?case by (simp add: completions_def results_for_Nil)
next
  case (Cons i order)
  then have IH: "length (filter (\<lambda>res. \<not> is_success res \<and> \<not> is_failed res)
            (results_for h (completions ts net order))) =
         length (filter (\<lambda>i. ts ! i = h \<and> counts_as_error (net i)) order)"
    by simp
  have c: "completions ts net (i # order) = (ts ! i, perform_request (net i)) # completions ts net order"
    by (simp add: completions_def)
  show ?case
  proof (cases "net i")
    case (Response status elapsed)
    then have "perform_request (net i) = Inr (Some (status, elapsed))"
      by (simp add: perform_request_def)
    with Response IH show ?thesis
      unfolding c by (auto simp: results_for_Cons is_success_def is_failed_def counts_as_error_def)
  next
    case (Raises e)
    with Cons.prems have "is_RequestException e"
      by simp
    with Raises have "perform_request (net i) = Inr None"
      by (simp add: perform_request_def)
    with Raises \<open>is_RequestException e\<close> IH show ?thesis
      unfolding c by (auto simp: results_for_Cons is_success_def is_failed_def counts_as_error_def)
  qed
qed

lemma run_errors:
  assumes "run hosts n net order = (ts, Inr st)" and "h \<in> set hosts"
    and "\<forall>i \<in> set order. \<forall>e. net i = Raises e \<longrightarrow> is_RequestException e"
  shows "\<exists>dh. map_of st h = Some dh \<and>
     errors dh = int (length (filter (\<lambda>i. ts ! i = h \<and> counts_as_error (net i)) order))"
proof -
  from run_InrD[OF assms(1)]
  have ag: "aggregate (init_stats hosts) (completions ts net order) = Inr st"
    by (rule conjunct2)
  let ?dh = "foldl record_result zero_stats (results_for h (completions ts net order))"
  have m: "map_of st h = Some ?dh"
    by (simp add: aggregate_map_of[OF ag] map_of_init_stats assms(2))
  have "errors ?dh = int (length (filter (\<lambda>res. \<not> is_success res \<and> \<not> is_failed res)
            (results_for h (completions ts net order))))"
    using foldl_record_result[of zero_stats "results_for h (completions ts net order)"]
    by (simp add: zero_stats_def)
  then have "errors ?dh = int (length (filter (\<lambda>i. ts ! i = h \<and> counts_as_error (net i)) order))"
    by (simp only: results_errors_count[OF assms(3)])
  with m show ?thesis
    by blast
qed

text \<open>
  C5, as the code has it.  \<open>perform_request\<close> catches exactly the exceptions that are a
  \<open>RequestException\<close>, among them the four transport failures (connection refused, timeout,
  DNS failure, TLS failure), and returns the pair of \<open>None\<close>s for them; the loop then adds one
  to the \<open>errors\<close> of the host of the task, changes nothing else, and goes on with the remaining
  completions.  An exception that is not a \<open>RequestException\<close> is not caught: it leaves
  \<open>perform_request\<close>, and the loop ends with it when it takes the result of the task.  A run in
  which no such exception occurs ends with statistics in which the \<open>errors\<close> of every host count
  its tasks that raised or got a status outside 200 to 599.
\<close>

theorem transport_failure_is_counted:
  assumes "map_of stats host = Some d"
  shows "perform_request (Raises (Transport f) :: 't get_result) = Inr None \<and>
     perform_request (Raises e :: 't get_result) =
       (if is_RequestException e then Inr None else Inl e) \<and>
     aggregate stats ((host, perform_request (Raises (Transport f) :: 't get_result)) # rest) =
       aggregate (AList.update host (d\<lparr>errors := errors d + 1\<rparr>) stats) rest \<and>
     (\<not> is_RequestException e \<longrightarrow>
        aggregate stats ((host, perform_request (Raises e :: 't get_result)) # rest) =
          Inl (Uncaught e)) \<and>
     ((\<forall>i \<in> set order. i < length (tasks hosts n) \<and>
          (\<forall>e. (net i :: 't get_result) = Raises e \<longrightarrow> is_RequestException e)) \<longrightarrow>
      (\<exists>st. run hosts n net order = (tasks hosts n, Inr st) \<and>
         (\<forall>h \<in> set hosts. \<exists>dh. map_of st h = Some dh \<and>
            errors dh =
              int (length (filter (\<lambda>i. tasks hosts n ! i = h \<and> counts_as_error (net i)) order)))))"
proof -
  have p: "perform_request (Raises (Transport f) :: 't get_result) = Inr None"
    by (simp add: perform_request_def)
  have q: "perform_request (Raises e :: 't get_result) =
       (if is_RequestException e then Inr None else Inl e)"
    by (simp add: perform_request_def)
  have s: "aggregate stats ((host, perform_request (Raises (Transport f) :: 't get_result)) # rest) =
       aggregate (AList.update host (d\<lparr>errors := errors d + 1\<rparr>) stats) rest"
    unfolding p by (simp add: fold_result_Some[OF assms] record_result_def)
  have c: "\<not> is_RequestException e \<longrightarrow>
        aggregate stats ((host, perform_request (Raises e :: 't get_result)) # rest) =
          Inl (Uncaught e)"
    unfolding q by simp
  have r: "(\<forall>i \<in> set order. i < length (tasks hosts n) \<and>
          (\<forall>e. (net i :: 't get_result) = Raises e \<longrightarrow> is_RequestException e)) \<longrightarrow>
      (\<exists>st. run hosts n net order = (tasks hosts n, Inr st) \<and>
         (\<forall>h \<in> set hosts. \<exists>dh. map_of st h = Some dh \<and>
            errors dh =
              int (length (filter (\<lambda>i. tasks hosts n ! i = h \<and> counts_as_error (net i)) order))))"
  proof (rule impI)
    assume a: "\<forall>i \<in> set order. i < length (tasks hosts n) \<and>
          (\<forall>e. net i = Raises e \<longrightarrow> is_RequestException e)"
    from run_defined[OF a] obtain st where st: "run hosts n net order = (tasks hosts n, Inr st)"
      by blast
    from a have a': "\<forall>i \<in> set order. \<forall>e. net i = Raises e \<longrightarrow> is_RequestException e"
      by simp
    have "\<forall>h \<in> set hosts. \<exists>dh. map_of st h = Some dh \<and>
            errors dh =
              int (length (filter (\<lambda>i. tasks hosts n ! i = h \<and> counts_as_error (net i)) order))"
      using run_errors[OF st _ a'] by blast
    with st show "\<exists>st. run hosts n net order = (tasks hosts n, Inr st) \<and>
         (\<forall>h \<in> set hosts. \<exists>dh. map_of st h = Some dh \<and>
            errors dh =
              int (length (filter (\<lambda>i. tasks hosts n ! i = h \<and> counts_as_error (net i)) order)))"
      by blast
  qed
  show ?thesis
    by (intro conjI) (fact p, fact q, fact s, fact c, fact r)
qed

theorem transport_failure_is_counted_witness:
  "perform_request (Raises (Transport ConnectionRefused) :: real get_result) = Inr None \<and>
   aggregate [([97], zero_stats)]
       [([97], perform_request (Raises (Transport ConnectionRefused) :: real get_result)),
        ([97], Inr (Some (200, 0.5)))] =
     Inr [([97], \<lparr>success = 1, failed = 0, errors = 1, times_l = [0.5]\<rparr>)] \<and>
   aggregate [([97], zero_stats)]
       [([97], perform_request (Raises OtherException :: real get_result)),
        ([97], Inr (Some (200, 0.5)))] = Inl (Uncaught OtherException) \<and>
   (\<exists>st dh. run [[97], [98]] 2 net_example [3, 1, 0, 2] = (tasks [[97], [98]] 2, Inr st) \<and>
      map_of st [98] = Some dh \<and> errors dh = 1)"
proof -
  have m: "map_of [([97::nat], zero_stats :: real host_stats)] [97] = Some zero_stats"
    by simp
  have o: "\<forall>i \<in> set [3, 1, 0, 2]. i < length (tasks [[97], [98]] 2) \<and>
      (\<forall>e. net_example i = Raises e \<longrightarrow> is_RequestException e)"
    by (simp add: tasks_def net_example_def)
  have ne: "\<not> is_RequestException OtherException"
    by simp
  note t = transport_failure_is_counted[OF m, of ConnectionRefused OtherException
      "[([97], Inr (Some (200, 0.5)))]" "[3, 1, 0, 2]" "[[97], [98]]" 2 net_example]
  note t1 = t[THEN conjunct1]
  note t3 = t[THEN conjunct2, THEN conjunct2, THEN conjunct1]
  note t4 = t[THEN conjunct2, THEN conjunct2, THEN conjunct2, THEN conjunct1, THEN mp, OF ne]
  note t5 = t[THEN conjunct2, THEN conjunct2, THEN conjunct2, THEN conjunct2, THEN mp, OF o]
  have a: "aggregate (AList.update [97] (zero_stats\<lparr>errors := errors zero_stats + 1\<rparr>) [([97], zero_stats)])
         [([97], Inr (Some (200, 0.5::real)))] =
       Inr [([97], \<lparr>success = 1, failed = 0, errors = 1, times_l = [0.5]\<rparr>)]"
    by (simp add: zero_stats_def fold_result_def record_result_def)
  from t5 obtain st where
    r: "run [[97], [98]] 2 net_example [3, 1, 0, 2] = (tasks [[97], [98]] 2, Inr st)"
    and e: "\<forall>h \<in> set [[97], [98]]. \<exists>dh. map_of st h = Some dh \<and>
            errors dh = int (length (filter
              (\<lambda>i. tasks [[97], [98]] 2 ! i = h \<and> counts_as_error (net_example i)) [3, 1, 0, 2]))"
    by blast
  from e obtain dh where "map_of st [98] = Some dh"
    and "errors dh = int (length (filter
              (\<lambda>i. tasks [[97], [98]] 2 ! i = [98] \<and> counts_as_error (net_example i)) [3, 1, 0, 2]))"
    by auto
  then have "map_of st [98] = Some dh \<and> errors dh = 1"
    by (simp add: tasks_def net_example_def counts_as_error_def numeral_eq_Suc)
  with r have t5': "\<exists>st dh. run [[97], [98]] 2 net_example [3, 1, 0, 2] = (tasks [[97], [98]] 2, Inr st) \<and>
      map_of st [98] = Some dh \<and> errors dh = 1"
    by blast
  from t1 t3[unfolded a] t4 t5' show ?thesis
    by (intro conjI)
qed

theorem transport_failure_counterexample:
  "perform_request (net_crash 0) = Inl OtherException \<and>
   validate_host (ascii ''https://example.com'') \<and>
   main ops_example no_files wr_ok net_crash [0] (args_inline ''https://example.com'' 1) =
     ([ascii ''https://example.com''], Crash (Uncaught OtherException))"
proof -
  let ?a = "args_inline ''https://example.com'' 1"
  have p: "perform_request (net_crash 0) = Inl OtherException"
    by (simp add: net_crash_def perform_request_def)
  have g: "get_hosts no_files ?a = Inr [ascii ''https://example.com'']"
    by (simp add: get_hosts_def args_inline_def truthy_def ascii_def)
  have v: "validate_host (ascii ''https://example.com'')"
    by (simp add: validate_host_def match_anchored_def URL_REGEX_def ascii_def plus_rx_def
        opt_rx_def host_char_def is_space_def)
  have f: "find (\<lambda>h. \<not> validate_host h) [ascii ''https://example.com''] = None"
    using v by simp
  have n: "args_count ?a = 1"
    by (simp add: args_inline_def)
  have r: "run [ascii ''https://example.com''] 1 net_crash [0] =
      ([ascii ''https://example.com''], Inl (Uncaught OtherException))"
    by (simp add: run_def tasks_def completions_def p)
  have "main ops_example no_files wr_ok net_crash [0] ?a =
     ([ascii ''https://example.com''], Crash (Uncaught OtherException))"
    by (simp only: main_def g sum.case f option.case n less_irrefl if_False r prod.case)
  with p v show ?thesis
    by (intro conjI)
qed

subsection \<open>The early returns of main\<close>

lemmas validate_host_eval =
  validate_host_def match_anchored_def URL_REGEX_def ascii_def plus_rx_def opt_rx_def
  host_char_def is_space_def

lemma validate_host_trailing_newline: "validate_host (ascii ''https://example.com'' @ [10])"
  by (simp add: validate_host_eval)

lemma find_first:
  "\<exists>x \<in> set xs. P x \<Longrightarrow>
     \<exists>pre x post. xs = pre @ x # post \<and> (\<forall>y \<in> set pre. \<not> P y) \<and> P x \<and> find P xs = Some x"
proof (induction xs)
  case Nil
  then show ?case by simp
next
  case (Cons a xs)
  show ?case
  proof (cases "P a")
    case True
    then have "a # xs = [] @ a # xs \<and> (\<forall>y \<in> set []. \<not> P y) \<and> P a \<and> find P (a # xs) = Some a"
      by simp
    then show ?thesis by blast
  next
    case False
    with Cons.prems have "\<exists>x \<in> set xs. P x" by auto
    from Cons.IH[OF this] obtain pre x post where
      "xs = pre @ x # post" "\<forall>y \<in> set pre. \<not> P y" "P x" "find P xs = Some x"
      by blast
    with False have "a # xs = (a # pre) @ x # post \<and> (\<forall>y \<in> set (a # pre). \<not> P y) \<and> P x \<and>
        find P (a # xs) = Some x"
      by simp
    then show ?thesis by blast
  qed
qed

lemma find_None_all: "(\<forall>x \<in> set xs. \<not> P x) \<Longrightarrow> find P xs = None"
  by (induction xs) simp_all

lemma get_hosts_Inl_cases:
  "get_hosts fs a = Inl d \<Longrightarrow> d = BothHostsAndFile \<or> d = NoHosts \<or> (\<exists>path e. d = FileError path e)"
  by (auto simp: get_hosts_def load_hosts_from_file_def split: option.splits sum.splits)

text \<open>
  C6.  When the list of targets was obtained and one of its strings does not match the
  pattern, \<open>main\<close> returns at the first such string \<open>h\<close>: it prints the diagnostic that quotes
  \<open>h\<close> and has submitted no request, whatever the other targets are.
\<close>

theorem invalid_target_aborts:
  assumes "get_hosts fs a = Inr hosts" and "\<exists>h \<in> set hosts. \<not> validate_host h"
  shows "\<exists>pre h post. hosts = pre @ h # post \<and> (\<forall>x \<in> set pre. validate_host x) \<and>
     \<not> validate_host h \<and>
     main F fs wr net order a = ([], Abort (BadUrl h)) \<and>
     (\<exists>p q. message (BadUrl h) = p @ h @ q)"
proof -
  from find_first[of hosts "\<lambda>h. \<not> validate_host h"] assms(2) obtain pre h post where
    s: "hosts = pre @ h # post" and p: "\<forall>y \<in> set pre. \<not> \<not> validate_host y"
    and h: "\<not> validate_host h" and f: "find (\<lambda>h. \<not> validate_host h) hosts = Some h"
    by blast
  have "main F fs wr net order a = ([], Abort (BadUrl h))"
    by (simp add: main_def assms(1) f)
  moreover have "\<exists>p q. message (BadUrl h) = p @ h @ q"
    unfolding message.simps msg_url_def by blast
  ultimately show ?thesis
    using s p h by blast
qed

theorem invalid_target_aborts_witness:
  "get_hosts no_files (args_inline ''https://example.com,https://exa mple.com,http://example.com'' 3) =
     Inr [ascii ''https://example.com'', ascii ''https://exa mple.com'', ascii ''http://example.com''] \<and>
   validate_host (ascii ''https://example.com'') \<and>
   \<not> validate_host (ascii ''https://exa mple.com'') \<and>
   \<not> validate_host (ascii ''http://example.com'') \<and>
   main ops_example no_files wr_ok net_example []
       (args_inline ''https://example.com,https://exa mple.com,http://example.com'' 3) =
     ([], Abort (BadUrl (ascii ''https://exa mple.com'')))"
proof -
  let ?a = "args_inline ''https://example.com,https://exa mple.com,http://example.com'' 3"
  let ?hosts = "[ascii ''https://example.com'', ascii ''https://exa mple.com'', ascii ''http://example.com'']"
  have g: "get_hosts no_files ?a = Inr ?hosts"
    by (simp add: get_hosts_def args_inline_def truthy_def ascii_def)
  have v1: "validate_host (ascii ''https://example.com'')"
    by (simp add: validate_host_eval)
  have v2: "\<not> validate_host (ascii ''https://exa mple.com'')"
    by (simp add: validate_host_eval)
  have v3: "\<not> validate_host (ascii ''http://example.com'')"
    by (simp add: validate_host_eval)
  from v2 have e: "\<exists>h \<in> set ?hosts. \<not> validate_host h"
    by simp
  from invalid_target_aborts[OF g e, of ops_example wr_ok net_example "[]"] obtain pre h post where
    s: "?hosts = pre @ h # post" and p: "\<forall>x \<in> set pre. validate_host x" and h: "\<not> validate_host h"
    and m: "main ops_example no_files wr_ok net_example [] ?a = ([], Abort (BadUrl h))"
    by blast
  have "h = ascii ''https://exa mple.com''"
  proof (cases pre)
    case Nil
    with s v1 h show ?thesis by simp
  next
    case (Cons x pre')
    show ?thesis
    proof (cases pre')
      case Nil
      with s Cons show ?thesis by simp
    next
      case (Cons y pre'')
      with s \<open>pre = x # pre'\<close> p v2 show ?thesis by auto
    qed
  qed
  with g v1 v2 v3 m show ?thesis
    by simp
qed

lemma main_count_below_one:
  assumes "args_count a < 1"
  shows "main F fs wr net order a =
     ([], Abort (case get_hosts fs a of
                   Inl d \<Rightarrow> d
                 | Inr hosts \<Rightarrow>
                     (case find (\<lambda>h. \<not> validate_host h) hosts of
                        Some h \<Rightarrow> BadUrl h
                      | None \<Rightarrow> BadCount)))"
  using assms by (simp add: main_def split: sum.splits option.splits)

text \<open>
  C7, as the code has it.  With a count below one, \<open>main\<close> always returns early with a
  diagnostic and has submitted no request.  The diagnostic is the one about the count exactly
  when the list of targets was obtained and all its strings match the pattern; otherwise it is
  that of the earlier check that failed: the configuration error that obtaining the targets
  returned (input modes, file), or the validation error of the first target of the list that
  does not match.
\<close>

theorem count_below_one_aborts:
  assumes "args_count a < 1"
  shows "\<exists>d. main F fs wr net order a = ([], Abort d) \<and>
     (d = BadCount \<longleftrightarrow> (\<exists>hosts. get_hosts fs a = Inr hosts \<and> (\<forall>h \<in> set hosts. validate_host h))) \<and>
     (\<forall>d'. get_hosts fs a = Inl d' \<longrightarrow> d = d' \<and> is_configuration_error d') \<and>
     (\<forall>hosts. get_hosts fs a = Inr hosts \<and> (\<exists>h \<in> set hosts. \<not> validate_host h) \<longrightarrow>
        (\<exists>pre h post. hosts = pre @ h # post \<and> (\<forall>x \<in> set pre. validate_host x) \<and>
           \<not> validate_host h \<and> d = BadUrl h)) \<and>
     (is_configuration_error d \<or>
      (\<exists>hosts h. get_hosts fs a = Inr hosts \<and> h \<in> set hosts \<and> \<not> validate_host h \<and> d = BadUrl h))"
proof (cases "get_hosts fs a")
  case (Inl d)
  from get_hosts_Inl_cases[OF Inl] have "is_configuration_error d \<and> d \<noteq> BadCount"
    by auto
  with Inl main_count_below_one[OF assms, of F fs wr net order] show ?thesis
    by simp
next
  case (Inr hosts)
  show ?thesis
  proof (cases "\<exists>h \<in> set hosts. \<not> validate_host h")
    case True
    from find_first[of hosts "\<lambda>h. \<not> validate_host h"] True obtain pre h post where
      s: "hosts = pre @ h # post" and p: "\<forall>y \<in> set pre. \<not> \<not> validate_host y"
      and h: "\<not> validate_host h" and f: "find (\<lambda>h. \<not> validate_host h) hosts = Some h"
      by blast
    from p have p': "\<forall>x \<in> set pre. validate_host x"
      by simp
    have m: "main F fs wr net order a = ([], Abort (BadUrl h))"
      by (simp add: main_count_below_one[OF assms] Inr f)
    have 1: "BadUrl h = BadCount \<longleftrightarrow>
        (\<exists>hosts. get_hosts fs a = Inr hosts \<and> (\<forall>h \<in> set hosts. validate_host h))"
      using Inr True by auto
    have 2: "\<forall>d'. get_hosts fs a = Inl d' \<longrightarrow> BadUrl h = d' \<and> is_configuration_error d'"
      by (simp add: Inr)
    have 3: "\<forall>hosts. get_hosts fs a = Inr hosts \<and> (\<exists>h \<in> set hosts. \<not> validate_host h) \<longrightarrow>
        (\<exists>pre h' post. hosts = pre @ h' # post \<and> (\<forall>x \<in> set pre. validate_host x) \<and>
           \<not> validate_host h' \<and> BadUrl h = BadUrl h')"
      using Inr s p' h by auto
    have 4: "is_configuration_error (BadUrl h) \<or>
      (\<exists>hosts h'. get_hosts fs a = Inr hosts \<and> h' \<in> set hosts \<and> \<not> validate_host h' \<and>
         BadUrl h = BadUrl h')"
      using Inr s h by auto
    from m 1 2 3 4 show ?thesis
      by blast
  next
    case False
    then have "find (\<lambda>h. \<not> validate_host h) hosts = None"
      by (simp add: find_None_all)
    with Inr False main_count_below_one[OF assms, of F fs wr net order] show ?thesis
      by auto
  qed
qed

theorem count_below_one_aborts_witness:
  "args_count (args_inline ''https://example.com'' 0) < 1 \<and>
   main ops_example no_files wr_ok net_example [] (args_inline ''https://example.com'' 0) =
     ([], Abort BadCount) \<and>
   is_configuration_error BadCount \<and>
   args_count (args_inline ''https://a.io,http://a.io,ftp://b.io'' 0) < 1 \<and>
   main ops_example no_files wr_ok net_example [] (args_inline ''https://a.io,http://a.io,ftp://b.io'' 0) =
     ([], Abort (BadUrl (ascii ''http://a.io'')))"
proof -
  let ?a = "args_inline ''https://example.com'' 0"
  have c: "args_count ?a < 1"
    by (simp add: args_inline_def)
  have g: "get_hosts no_files ?a = Inr [ascii ''https://example.com'']"
    by (simp add: get_hosts_def args_inline_def truthy_def ascii_def)
  have v: "validate_host (ascii ''https://example.com'')"
    by (simp add: validate_host_eval)
  from count_below_one_aborts[OF c, of ops_example no_files wr_ok net_example "[]"] obtain d where
    m: "main ops_example no_files wr_ok net_example [] ?a = ([], Abort d)"
    and d: "d = BadCount \<longleftrightarrow>
      (\<exists>hosts. get_hosts no_files ?a = Inr hosts \<and> (\<forall>h \<in> set hosts. validate_host h))"
    by blast
  from g v have "\<exists>hosts. get_hosts no_files ?a = Inr hosts \<and> (\<forall>h \<in> set hosts. validate_host h)"
    by simp
  with d have "d = BadCount"
    by blast
  with c m have first: "args_count ?a < 1 \<and>
      main ops_example no_files wr_ok net_example [] ?a = ([], Abort BadCount) \<and>
      is_configuration_error BadCount"
    by simp
  let ?b = "args_inline ''https://a.io,http://a.io,ftp://b.io'' 0"
  let ?hosts = "[ascii ''https://a.io'', ascii ''http://a.io'', ascii ''ftp://b.io'']"
  have cb: "args_count ?b < 1"
    by (simp add: args_inline_def)
  have gb: "get_hosts no_files ?b = Inr ?hosts"
    by (simp add: get_hosts_def args_inline_def truthy_def ascii_def)
  have v1: "validate_host (ascii ''https://a.io'')"
    by (simp add: validate_host_eval)
  have v2: "\<not> validate_host (ascii ''http://a.io'')"
    by (simp add: validate_host_eval)
  from v2 have e: "\<exists>h \<in> set ?hosts. \<not> validate_host h"
    by simp
  from count_below_one_aborts[OF cb, of ops_example no_files wr_ok net_example "[]"] obtain d' where
    mb: "main ops_example no_files wr_ok net_example [] ?b = ([], Abort d')"
    and db: "\<forall>hosts. get_hosts no_files ?b = Inr hosts \<and> (\<exists>h \<in> set hosts. \<not> validate_host h) \<longrightarrow>
        (\<exists>pre h post. hosts = pre @ h # post \<and> (\<forall>x \<in> set pre. validate_host x) \<and>
           \<not> validate_host h \<and> d' = BadUrl h)"
    by blast
  from db gb e obtain pre h post where
    s: "?hosts = pre @ h # post" and p: "\<forall>x \<in> set pre. validate_host x"
    and h: "\<not> validate_host h" and dh: "d' = BadUrl h"
    by blast
  have "h = ascii ''http://a.io''"
  proof (cases pre)
    case Nil
    with s v1 h show ?thesis by simp
  next
    case (Cons x pre')
    show ?thesis
    proof (cases pre')
      case Nil
      with s Cons show ?thesis by simp
    next
      case (Cons y pre'')
      with s \<open>pre = x # pre'\<close> p v2 show ?thesis by auto
    qed
  qed
  with mb dh have "main ops_example no_files wr_ok net_example [] ?b =
      ([], Abort (BadUrl (ascii ''http://a.io'')))"
    by simp
  with first cb show ?thesis
    by blast
qed

theorem count_below_one_counterexample:
  "args_count (args_inline ''http://example.com'' 0) < 1 \<and>
   main ops_example no_files wr_ok net_example [] (args_inline ''http://example.com'' 0) =
     ([], Abort (BadUrl (ascii ''http://example.com''))) \<and>
   \<not> is_configuration_error (BadUrl (ascii ''http://example.com''))"
proof -
  let ?a = "args_inline ''http://example.com'' 0"
  have g: "get_hosts no_files ?a = Inr [ascii ''http://example.com'']"
    by (simp add: get_hosts_def args_inline_def truthy_def ascii_def)
  have v: "\<not> validate_host (ascii ''http://example.com'')"
    by (simp add: validate_host_eval)
  have "main ops_example no_files wr_ok net_example [] ?a =
     ([], Abort (BadUrl (ascii ''http://example.com'')))"
    by (simp add: main_def g v)
  then show ?thesis
    by (simp add: args_inline_def)
qed

text \<open>
  C8, as the code has it.  With both input modes given, and with none, \<open>main\<close> returns early with
  a configuration error, whatever the file system and the network are, and has submitted no
  request.  The two cases print two different lines.
\<close>

theorem input_mode_errors:
  "(truthy (args_hosts a) \<noteq> None \<and> truthy (args_file a) \<noteq> None \<longrightarrow>
      main F fs wr net order a = ([], Abort BothHostsAndFile)) \<and>
   (truthy (args_hosts a) = None \<and> truthy (args_file a) = None \<longrightarrow>
      main F fs wr net order a = ([], Abort NoHosts)) \<and>
   is_configuration_error BothHostsAndFile \<and> is_configuration_error NoHosts \<and>
   message BothHostsAndFile \<noteq> message NoHosts"
proof -
  have "message BothHostsAndFile \<noteq> message NoHosts"
    by (simp add: msg_both_def msg_neither_def)
  then show ?thesis
    by (auto simp: main_def get_hosts_def)
qed

theorem input_mode_errors_witness:
  "main ops_example no_files wr_ok net_example [] args_both = ([], Abort BothHostsAndFile) \<and>
   main ops_example no_files wr_ok net_example [] args_neither = ([], Abort NoHosts)"
proof -
  have b: "truthy (args_hosts args_both) \<noteq> None \<and> truthy (args_file args_both) \<noteq> None"
    by (simp add: args_both_def truthy_def ascii_def)
  have n: "truthy (args_hosts args_neither) = None \<and> truthy (args_file args_neither) = None"
    by (simp add: args_neither_def truthy_def)
  from input_mode_errors[of args_both ops_example no_files wr_ok net_example "[]"] b
  have 1: "main ops_example no_files wr_ok net_example [] args_both = ([], Abort BothHostsAndFile)"
    by blast
  from input_mode_errors[of args_neither ops_example no_files wr_ok net_example "[]"] n
  have 2: "main ops_example no_files wr_ok net_example [] args_neither = ([], Abort NoHosts)"
    by blast
  from 1 2 show ?thesis
    by (rule conjI)
qed

theorem input_mode_errors_counterexample:
  "main ops_example no_files wr_ok net_example [] args_both = ([], Abort BothHostsAndFile) \<and>
   main ops_example no_files wr_ok net_example [] args_neither = ([], Abort NoHosts) \<and>
   message BothHostsAndFile \<noteq> message NoHosts"
  by (simp add: main_def get_hosts_def args_both_def args_neither_def truthy_def ascii_def
      msg_both_def msg_neither_def)

subsection \<open>Runs of main that reach the loop\<close>

lemma main_runs:
  assumes "get_hosts fs a = Inr hosts" and "\<forall>h \<in> set hosts. validate_host h" and "1 \<le> args_count a"
  shows "main F fs wr net order a =
     (case run hosts (args_count a) net order of
        (ts, Inl e) \<Rightarrow> (ts, Crash e)
      | (ts, Inr st) \<Rightarrow> (ts, Done st (print_stats F wr st (args_output a))))"
proof -
  from assms(2) have "find (\<lambda>h. \<not> validate_host h) hosts = None"
    by (simp add: find_None_all)
  with assms(1,3) show ?thesis
    by (simp add: main_def)
qed

lemma main_DoneD:
  assumes "main F fs wr net order a = (ts, Done st eff)"
  shows "\<exists>hosts. get_hosts fs a = Inr hosts \<and> (\<forall>h \<in> set hosts. validate_host h) \<and>
     1 \<le> args_count a \<and> run hosts (args_count a) net order = (ts, Inr st) \<and>
     eff = print_stats F wr st (args_output a)"
proof (cases "get_hosts fs a")
  case (Inl d)
  with assms show ?thesis by (simp add: main_def)
next
  case (Inr hosts)
  show ?thesis
  proof (cases "find (\<lambda>h. \<not> validate_host h) hosts")
    case (Some h)
    with Inr assms show ?thesis by (simp add: main_def)
  next
    case None
    then have v: "\<forall>h \<in> set hosts. validate_host h"
      by (auto simp: find_None_iff)
    from Inr None assms have c: "1 \<le> args_count a"
      by (simp add: main_def split: if_splits)
    from Inr None assms c have "run hosts (args_count a) net order = (ts, Inr st) \<and>
        eff = print_stats F wr st (args_output a)"
      by (auto simp: main_def split: prod.splits sum.splits)
    with Inr v c show ?thesis by simp
  qed
qed

lemma schedule_set: "is_schedule order n \<Longrightarrow> set order = {0..<n}"
  by (metis is_schedule_def mset_eq_setD set_upt)

lemma no_entry: "h \<notin> fst ` set st \<Longrightarrow> filter (\<lambda>(h', d). h' = h) st = []"
  by (induction st) auto

lemma one_entry:
  "distinct (map fst st) \<Longrightarrow> h \<in> fst ` set st \<Longrightarrow> length (filter (\<lambda>(h', d). h' = h) st) = 1"
  by (induction st) (auto simp: no_entry)

text \<open>
  C10.  A host that occurs \<open>k\<close> times in the list of targets is not rejected: when all targets
  are valid and the count is at least one, \<open>main\<close> submits \<open>k\<close> times the count tasks for it, keeps
  one entry for it in the dictionary, and when every task gets a response or a
  \<open>RequestException\<close> the three counters of this entry add up to \<open>k\<close> times the count.
\<close>

theorem repeated_target_is_merged:
  assumes "get_hosts fs a = Inr hosts" and "\<forall>x \<in> set hosts. validate_host x"
    and "1 \<le> args_count a"
    and "is_schedule order (length (tasks hosts (args_count a)))"
    and "\<forall>i < length (tasks hosts (args_count a)). \<forall>e. net i = Raises e \<longrightarrow> is_RequestException e"
    and "h \<in> set hosts"
  shows "\<exists>st eff d. main F fs wr net order a = (tasks hosts (args_count a), Done st eff) \<and>
     length (filter (\<lambda>x. x = h) (tasks hosts (args_count a))) =
       count_list hosts h * nat (args_count a) \<and>
     length (filter (\<lambda>(h', d'). h' = h) st) = 1 \<and>
     map_of st h = Some d \<and>
     counted d = int (count_list hosts h) * args_count a"
proof -
  let ?n = "args_count a"
  let ?ts = "tasks hosts ?n"
  have "\<forall>i \<in> set order. i < length ?ts \<and> (\<forall>e. net i = Raises e \<longrightarrow> is_RequestException e)"
    using assms(5) by (simp add: schedule_set[OF assms(4)])
  from run_defined[OF this] obtain st where r: "run hosts ?n net order = (?ts, Inr st)"
    by blast
  have m: "main F fs wr net order a = (?ts, Done st (print_stats F wr st (args_output a)))"
    by (simp add: main_runs[OF assms(1-3)] r)
  from run_InrD[OF r] have ag: "aggregate (init_stats hosts) (completions ?ts net order) = Inr st"
    by (rule conjunct2)
  have keys: "map fst st = map fst (init_stats hosts :: 'a stats)"
    by (rule aggregate_keys[OF ag])
  then have dist: "distinct (map fst st)"
    by (simp add: distinct_init_stats)
  have "fst ` set st = set (map fst (init_stats hosts :: 'a stats))"
    using keys by (metis list.set_map)
  then have dom: "h \<in> fst ` set st"
    using assms(6) by (simp add: keys_init_stats)
  then obtain d where d: "(h, d) \<in> set st"
    by auto
  with dist have md: "map_of st h = Some d"
    by (metis map_of_is_SomeI)
  have "counted d = int (length (filter (\<lambda>c. fst c = h) (completions ?ts net order)))"
    by (rule aggregate_init_counted[OF ag d])
  also have "\<dots> = int (length (filter (\<lambda>x. x = h) ?ts))"
    by (simp only: count_completions[OF assms(4)])
  also have "\<dots> = int (count_list hosts h) * ?n"
    using assms(3) by (simp add: count_tasks)
  finally have cd: "counted d = int (count_list hosts h) * ?n" .
  from m count_tasks[of h hosts ?n] one_entry[OF dist dom] md cd show ?thesis
    by blast
qed

theorem repeated_target_is_merged_witness:
  "get_hosts no_files (args_inline ''https://a.io,https://b.io,https://a.io'' 2) =
     Inr [ascii ''https://a.io'', ascii ''https://b.io'', ascii ''https://a.io''] \<and>
   count_list [ascii ''https://a.io'', ascii ''https://b.io'', ascii ''https://a.io'']
     (ascii ''https://a.io'') = 2 \<and>
   (\<exists>st eff d.
      main ops_example no_files wr_ok net_example [5, 0, 3, 1, 4, 2]
          (args_inline ''https://a.io,https://b.io,https://a.io'' 2) =
        (tasks [ascii ''https://a.io'', ascii ''https://b.io'', ascii ''https://a.io''] 2,
         Done st eff) \<and>
      length (filter (\<lambda>(h', d'). h' = ascii ''https://a.io'') st) = 1 \<and>
      map_of st (ascii ''https://a.io'') = Some d \<and> counted d = 4)"
proof -
  let ?a = "args_inline ''https://a.io,https://b.io,https://a.io'' 2"
  let ?hosts = "[ascii ''https://a.io'', ascii ''https://b.io'', ascii ''https://a.io'']"
  have g: "get_hosts no_files ?a = Inr ?hosts"
    by (simp add: get_hosts_def args_inline_def truthy_def ascii_def)
  have v: "\<forall>x \<in> set ?hosts. validate_host x"
    by (simp add: validate_host_eval)
  have c: "1 \<le> args_count ?a"
    by (simp add: args_inline_def)
  have n: "args_count ?a = 2"
    by (simp add: args_inline_def)
  have l: "length (tasks ?hosts (args_count ?a)) = 6"
    by (simp add: length_tasks n)
  have s: "is_schedule [5, 0, 3, 1, 4, 2] (length (tasks ?hosts (args_count ?a)))"
    unfolding l by (simp add: is_schedule_def upt_rec[of _ 6] upt_rec[of _ "Suc _"] numeral_eq_Suc)
  have e: "\<forall>i < length (tasks ?hosts (args_count ?a)).
      \<forall>e. net_example i = Raises e \<longrightarrow> is_RequestException e"
    by (simp add: net_example_def)
  have h: "ascii ''https://a.io'' \<in> set ?hosts"
    by simp
  have k: "count_list ?hosts (ascii ''https://a.io'') = 2"
    by (simp add: ascii_def)
  from repeated_target_is_merged[OF g v c s e h, of ops_example wr_ok]
  have "\<exists>st eff d.
      main ops_example no_files wr_ok net_example [5, 0, 3, 1, 4, 2] ?a =
        (tasks ?hosts (args_count ?a), Done st eff) \<and>
      length (filter (\<lambda>(h', d'). h' = ascii ''https://a.io'') st) = 1 \<and>
      map_of st (ascii ''https://a.io'') = Some d \<and>
      counted d = int (count_list ?hosts (ascii ''https://a.io'')) * args_count ?a"
    by blast
  then have "\<exists>st eff d.
      main ops_example no_files wr_ok net_example [5, 0, 3, 1, 4, 2] ?a =
        (tasks ?hosts 2, Done st eff) \<and>
      length (filter (\<lambda>(h', d'). h' = ascii ''https://a.io'') st) = 1 \<and>
      map_of st (ascii ''https://a.io'') = Some d \<and> counted d = 4"
    unfolding k n by simp
  with g k show ?thesis
    by blast
qed

subsection \<open>The report\<close>

lemma Min_two_first: "Min (set (min x y # ys)) = Min (set (x # y # (ys :: 'a::linorder list)))"
proof (cases ys)
  case Nil
  then show ?thesis by simp
next
  case (Cons z zs)
  then have "set ys \<noteq> {}" by simp
  then show ?thesis
    by (simp add: Min_insert min.assoc)
qed

lemma Max_two_first: "Max (set (max x y # ys)) = Max (set (x # y # (ys :: 'a::linorder list)))"
proof (cases ys)
  case Nil
  then show ?thesis by simp
next
  case (Cons z zs)
  then have "set ys \<noteq> {}" by simp
  then show ?thesis
    by (simp add: Max_insert max.assoc)
qed

lemma py_min_eq: "py_min x xs = Min (set (x # xs))"
proof (induction xs arbitrary: x)
  case Nil
  then show ?case by (simp add: py_min_def)
next
  case (Cons y ys)
  have "(if y < x then y else x) = min x y"
    by (auto simp: min_def)
  then have "py_min x (y # ys) = py_min (min x y) ys"
    by (simp add: py_min_def)
  also have "\<dots> = Min (set (min x y # ys))"
    by (rule Cons.IH)
  also have "\<dots> = Min (set (x # y # ys))"
    by (rule Min_two_first)
  finally show ?case .
qed

lemma py_max_eq: "py_max x xs = Max (set (x # xs))"
proof (induction xs arbitrary: x)
  case Nil
  then show ?case by (simp add: py_max_def)
next
  case (Cons y ys)
  have "(if y > x then y else x) = max x y"
    by (auto simp: max_def)
  then have "py_max x (y # ys) = py_max (max x y) ys"
    by (simp add: py_max_def)
  also have "\<dots> = Max (set (max x y # ys))"
    by (rule Cons.IH)
  also have "\<dots> = Max (set (x # y # ys))"
    by (rule Max_two_first)
  finally show ?case .
qed

lemma latency_lines_Nil:
  "latency_lines F [] = [ascii ''  Min: -'', ascii ''  Max: -'', ascii ''  Avg: -'']"
  by (simp add: latency_lines_def)

lemma latency_lines_Cons:
  "latency_lines F (t # rest) =
     [ascii ''  Min: '' @ fmt4 F (Min (set (t # rest))) @ ascii '' s'',
      ascii ''  Max: '' @ fmt4 F (Max (set (t # rest))) @ ascii '' s'',
      ascii ''  Avg: '' @ fmt4 F (fdiv F (fsum F (t # rest)) (int (length (t # rest)))) @ ascii '' s'']"
  unfolding latency_lines_def list.case py_min_eq py_max_eq ..

lemma latency_lines_by_success:
  assumes "int (length ts) = n"
  shows "latency_lines F ts =
       (if n = 0
        then [ascii ''  Min: -'', ascii ''  Max: -'', ascii ''  Avg: -'']
        else [ascii ''  Min: '' @ fmt4 F (Min (set ts)) @ ascii '' s'',
              ascii ''  Max: '' @ fmt4 F (Max (set ts)) @ ascii '' s'',
              ascii ''  Avg: '' @ fmt4 F (fdiv F (fsum F ts) (int (length ts))) @ ascii '' s''])"
proof (cases ts)
  case Nil
  with assms have "n = 0" by simp
  then show ?thesis
    unfolding Nil latency_lines_Nil by (simp only: if_True simp_thms)
next
  case (Cons t rest)
  with assms have "n \<noteq> 0" by auto
  then show ?thesis
    unfolding Cons latency_lines_Cons by (simp only: if_False simp_thms)
qed

lemma report_lines_block:
  assumes "(h, d) \<in> set st"
  shows "\<exists>before after. report_lines F st = before @ host_lines F h d @ after"
proof -
  from assms obtain pre post where "st = pre @ (h, d) # post"
    by (meson split_list)
  then have "report_lines F st = report_lines F pre @ host_lines F h d @ report_lines F post"
    by (simp add: report_lines_def)
  then show ?thesis by blast
qed

lemma entry_samples:
  assumes "aggregate (init_stats hosts) cs = Inr st" and "(h, d) \<in> set st"
  shows "int (length (times_l d)) = success d \<and> times_l d = latencies (results_for h cs)"
proof -
  from aggregate_init_entry[OF assms]
  have d: "d = foldl record_result zero_stats (results_for h cs)"
    by simp
  have "success d = int (length (filter is_success (results_for h cs)))"
    and "times_l d = latencies (results_for h cs)"
    using foldl_record_result[of zero_stats "results_for h cs"]
    by (simp_all add: d zero_stats_def)
  then show ?thesis
    by (simp add: length_latencies)
qed

lemma str_nat_digit: "n < 10 \<Longrightarrow> str_nat n = [48 + n]"
  by (simp add: str_nat.simps)

text \<open>
  C9.  In a run that ends with the report, the text printed (or written to the output file)
  is the blocks of the hosts in the order of the dictionary, joined by newlines.  The block of
  a host \<open>h\<close> with record \<open>d\<close> consists of eight lines: the host, the three counters, the three
  latency fields and an empty line.  The latency samples of \<open>d\<close> are the elapsed times of the
  successes of \<open>h\<close> only, as many as \<open>success d\<close>.  With no success the three fields are a dash;
  otherwise they are the minimum, the maximum and the sum divided by the number of the
  samples, each in the format \<open>:.4f\<close> and followed by \<open>s\<close>.
\<close>

theorem report_latency_fields:
  assumes "main F fs wr net order a = (ts, Done st eff)" and "(h, d) \<in> set st"
  shows "eff = print_stats F wr st (args_output a) \<and>
     (truthy (args_output a) = None \<longrightarrow> eff = Printed (join [10] (report_lines F st))) \<and>
     (\<forall>path. truthy (args_output a) = Some path \<and> wr path (join [10] (report_lines F st)) = None \<longrightarrow>
        eff = Written path (join [10] (report_lines F st))) \<and>
     report_lines F st = concat (map (\<lambda>(h, d). host_lines F h d) st) \<and>
     (\<exists>before after. report_lines F st = before @ host_lines F h d @ after) \<and>
     times_l d = latencies (results_for h (completions ts net order)) \<and>
     int (length (times_l d)) = success d \<and>
     host_lines F h d =
       [ascii ''Host: '' @ h,
        ascii ''  Success: '' @ str_int (success d),
        ascii ''  Failed:  '' @ str_int (failed d),
        ascii ''  Errors:  '' @ str_int (errors d)] @
       (if success d = 0
        then [ascii ''  Min: -'', ascii ''  Max: -'', ascii ''  Avg: -'']
        else [ascii ''  Min: '' @ fmt4 F (Min (set (times_l d))) @ ascii '' s'',
              ascii ''  Max: '' @ fmt4 F (Max (set (times_l d))) @ ascii '' s'',
              ascii ''  Avg: '' @
                fmt4 F (fdiv F (fsum F (times_l d)) (int (length (times_l d)))) @ ascii '' s'']) @
       [[]]"
proof -
  from main_DoneD[OF assms(1)] obtain hosts where
    r: "run hosts (args_count a) net order = (ts, Inr st)"
    and e: "eff = print_stats F wr st (args_output a)"
    by blast
  from run_InrD[OF r] have ag: "aggregate (init_stats hosts) (completions ts net order) = Inr st"
    by (rule conjunct2)
  note inv = entry_samples[OF ag assms(2)]
  from inv have len: "int (length (times_l d)) = success d"
    by (rule conjunct1)
  from inv have t: "times_l d = latencies (results_for h (completions ts net order))"
    by (rule conjunct2)
  have p: "truthy (args_output a) = None \<longrightarrow> eff = Printed (join [10] (report_lines F st))"
    by (simp add: e print_stats_def)
  have w: "\<forall>path. truthy (args_output a) = Some path \<and> wr path (join [10] (report_lines F st)) = None \<longrightarrow>
        eff = Written path (join [10] (report_lines F st))"
    by (simp add: e print_stats_def)
  have rl: "report_lines F st = concat (map (\<lambda>(h, d). host_lines F h d) st)"
    by (simp add: report_lines_def)
  note l = latency_lines_by_success[OF len, of F]
  have hl: "host_lines F h d =
       [ascii ''Host: '' @ h,
        ascii ''  Success: '' @ str_int (success d),
        ascii ''  Failed:  '' @ str_int (failed d),
        ascii ''  Errors:  '' @ str_int (errors d)] @
       (if success d = 0
        then [ascii ''  Min: -'', ascii ''  Max: -'', ascii ''  Avg: -'']
        else [ascii ''  Min: '' @ fmt4 F (Min (set (times_l d))) @ ascii '' s'',
              ascii ''  Max: '' @ fmt4 F (Max (set (times_l d))) @ ascii '' s'',
              ascii ''  Avg: '' @
                fmt4 F (fdiv F (fsum F (times_l d)) (int (length (times_l d)))) @ ascii '' s'']) @
       [[]]"
    unfolding host_lines_def l ..
  note blk = report_lines_block[OF assms(2), of F]
  show ?thesis
    by (intro conjI) (fact e, fact p, fact w, fact rl, fact blk, fact t, fact len, fact hl)
qed

theorem report_latency_fields_witness:
  "main ops_example no_files wr_ok net_example [3, 1, 0, 2]
       (args_inline ''https://a.io,https://b.io'' 2) =
     ([ascii ''https://a.io'', ascii ''https://a.io'', ascii ''https://b.io'', ascii ''https://b.io''],
      Done [(ascii ''https://a.io'', \<lparr>success = 2, failed = 0, errors = 0, times_l = [0.125, 0.5]\<rparr>),
            (ascii ''https://b.io'', \<lparr>success = 0, failed = 1, errors = 1, times_l = []\<rparr>)]
        (Printed (join [10] (report_lines ops_example
           [(ascii ''https://a.io'', \<lparr>success = 2, failed = 0, errors = 0, times_l = [0.125, 0.5]\<rparr>),
            (ascii ''https://b.io'', \<lparr>success = 0, failed = 1, errors = 1, times_l = []\<rparr>)])))) \<and>
   host_lines ops_example (ascii ''https://a.io'')
       \<lparr>success = 2, failed = 0, errors = 0, times_l = [0.125, 0.5]\<rparr> =
     [ascii ''Host: https://a.io'', ascii ''  Success: 2'', ascii ''  Failed:  0'',
      ascii ''  Errors:  0'', ascii ''  Min: 0.1250 s'', ascii ''  Max: 0.5000 s'',
      ascii ''  Avg: 0.3125 s'', []] \<and>
   host_lines ops_example (ascii ''https://b.io'')
       \<lparr>success = 0, failed = 1, errors = 1, times_l = []\<rparr> =
     [ascii ''Host: https://b.io'', ascii ''  Success: 0'', ascii ''  Failed:  1'',
      ascii ''  Errors:  1'', ascii ''  Min: -'', ascii ''  Max: -'', ascii ''  Avg: -'', []]"
proof -
  let ?a = "args_inline ''https://a.io,https://b.io'' 2"
  let ?A = "ascii ''https://a.io''"
  let ?B = "ascii ''https://b.io''"
  let ?da = "\<lparr>success = 2, failed = 0, errors = 0, times_l = [0.125, 0.5::real]\<rparr>"
  let ?db = "\<lparr>success = 0, failed = 1, errors = 1, times_l = [] :: real list\<rparr>"
  let ?st = "[(?A, ?da), (?B, ?db)]"
  have g: "get_hosts no_files ?a = Inr [?A, ?B]"
    by (simp add: get_hosts_def args_inline_def truthy_def ascii_def)
  have v: "\<forall>x \<in> set [?A, ?B]. validate_host x"
    by (simp add: validate_host_eval)
  have c: "1 \<le> args_count ?a"
    by (simp add: args_inline_def)
  have n: "args_count ?a = 2"
    by (simp add: args_inline_def)
  have r: "run [?A, ?B] 2 net_example [3, 1, 0, 2] = ([?A, ?A, ?B, ?B], Inr ?st)"
    by (simp add: run_def tasks_def completions_def net_example_def perform_request_def
        init_stats_def zero_stats_def fold_result_def record_result_def numeral_eq_Suc ascii_def)
  have m: "main ops_example no_files wr_ok net_example [3, 1, 0, 2] ?a =
      ([?A, ?A, ?B, ?B], Done ?st (print_stats ops_example wr_ok ?st (args_output ?a)))"
    unfolding main_runs[OF g v c] n r by (simp only: prod.case sum.case)
  have o: "truthy (args_output ?a) = None"
    by (simp add: args_inline_def truthy_def)
  have ia: "(?A, ?da) \<in> set ?st"
    by simp
  have ib: "(?B, ?db) \<in> set ?st"
    by simp
  note ta = report_latency_fields[OF m ia]
  note tb = report_latency_fields[OF m ib]
  from ta[THEN conjunct2, THEN conjunct1] o
  have p: "print_stats ops_example wr_ok ?st (args_output ?a) =
      Printed (join [10] (report_lines ops_example ?st))"
    by (rule mp)
  have "host_lines ops_example ?A ?da =
       [ascii ''Host: '' @ ?A,
        ascii ''  Success: '' @ str_int (success ?da),
        ascii ''  Failed:  '' @ str_int (failed ?da),
        ascii ''  Errors:  '' @ str_int (errors ?da)] @
       (if success ?da = 0
        then [ascii ''  Min: -'', ascii ''  Max: -'', ascii ''  Avg: -'']
        else [ascii ''  Min: '' @ fmt4 ops_example (Min (set (times_l ?da))) @ ascii '' s'',
              ascii ''  Max: '' @ fmt4 ops_example (Max (set (times_l ?da))) @ ascii '' s'',
              ascii ''  Avg: '' @
                fmt4 ops_example (fdiv ops_example (fsum ops_example (times_l ?da))
                  (int (length (times_l ?da)))) @ ascii '' s'']) @
       [[]]"
    by (rule ta[THEN conjunct2, THEN conjunct2, THEN conjunct2, THEN conjunct2, THEN conjunct2, THEN conjunct2, THEN conjunct2])
  then have ha: "host_lines ops_example ?A ?da =
     [ascii ''Host: https://a.io'', ascii ''  Success: 2'', ascii ''  Failed:  0'',
      ascii ''  Errors:  0'', ascii ''  Min: 0.1250 s'', ascii ''  Max: 0.5000 s'',
      ascii ''  Avg: 0.3125 s'', []]"
    by (simp add: ops_example_def fmt4_example_def str_int_def str_nat_digit ascii_def)
  have "host_lines ops_example ?B ?db =
       [ascii ''Host: '' @ ?B,
        ascii ''  Success: '' @ str_int (success ?db),
        ascii ''  Failed:  '' @ str_int (failed ?db),
        ascii ''  Errors:  '' @ str_int (errors ?db)] @
       (if success ?db = 0
        then [ascii ''  Min: -'', ascii ''  Max: -'', ascii ''  Avg: -'']
        else [ascii ''  Min: '' @ fmt4 ops_example (Min (set (times_l ?db))) @ ascii '' s'',
              ascii ''  Max: '' @ fmt4 ops_example (Max (set (times_l ?db))) @ ascii '' s'',
              ascii ''  Avg: '' @
                fmt4 ops_example (fdiv ops_example (fsum ops_example (times_l ?db))
                  (int (length (times_l ?db)))) @ ascii '' s'']) @
       [[]]"
    by (rule tb[THEN conjunct2, THEN conjunct2, THEN conjunct2, THEN conjunct2, THEN conjunct2, THEN conjunct2, THEN conjunct2])
  then have hb: "host_lines ops_example ?B ?db =
     [ascii ''Host: https://b.io'', ascii ''  Success: 0'', ascii ''  Failed:  1'',
      ascii ''  Errors:  1'', ascii ''  Min: -'', ascii ''  Max: -'', ascii ''  Avg: -'', []]"
    by (simp add: str_int_def str_nat_digit ascii_def)
  from m[unfolded p] ha hb show ?thesis
    by (intro conjI)
qed

end
